theory Spec2Isabelle
  imports Complex_Main "HOL-Library.Word"
begin

section \<open>Smart Room SCADA controller: a shallow embedding of Smart\_Room\_SCADA.ino\<close>

text \<open>
  The sketch keeps all of its state in global variables and changes them from two places:
  the periodic tick \<open>updateSensorsAndLogic\<close> and the HTTP handlers. The model passes a
  record of those globals explicitly. An access to the array \<open>history\<close> outside its bounds
  is undefined behaviour in C++; every function that indexes the array returns an
  \<open>option\<close> and \<open>None\<close> stands for such an access.
\<close>

subsection \<open>Values\<close>

text \<open>
  A C \<open>float\<close>: not-a-number, the two infinities, or a finite value. \<open>Fin q\<close> stands for
  the finite float of value \<open>q\<close>; the rounding of float arithmetic to binary is not part
  of the model. Comparisons follow IEEE 754: every comparison with \<open>NaN\<close> is false.
\<close>

datatype cfloat = NaN | MInf | Fin rat | PInf

fun isnan :: "cfloat \<Rightarrow> bool" where
  "isnan NaN = True"
| "isnan _ = False"

text \<open>The C operator \<open>>=\<close> on floats.\<close>

fun cf_ge :: "cfloat \<Rightarrow> cfloat \<Rightarrow> bool" where
  "cf_ge NaN _ = False"
| "cf_ge _ NaN = False"
| "cf_ge PInf _ = True"
| "cf_ge _ MInf = True"
| "cf_ge MInf _ = False"
| "cf_ge _ PInf = False"
| "cf_ge (Fin a) (Fin b) = (b \<le> a)"

text \<open>The expression \<open>x / 100.0\<close>.\<close>

fun cf_div100 :: "cfloat \<Rightarrow> cfloat" where
  "cf_div100 NaN = NaN"
| "cf_div100 MInf = MInf"
| "cf_div100 PInf = PInf"
| "cf_div100 (Fin q) = Fin (q / 100)"

text \<open>
  The C operator \<open>%\<close> on \<open>int\<close> truncates towards zero: the result has the sign of the
  dividend.
\<close>

definition c_rem :: "int \<Rightarrow> int \<Rightarrow> int" where
  "c_rem a b = sgn a * (\<bar>a\<bar> mod \<bar>b\<bar>)"

subsection \<open>Library functions the sketch calls\<close>

text \<open>
  These functions belong to the C library, the Arduino core and RTClib, not to the sketch.
  They are written out as far as the sketch depends on them.
\<close>

text \<open>Decimal digits of a non-negative number: \<open>%d\<close> and \<open>String(unsigned)\<close>.\<close>

definition digit_char :: "nat \<Rightarrow> char" where
  "digit_char d = ''0123456789'' ! (d mod 10)"

fun show_nat :: "nat \<Rightarrow> string" where
  "show_nat n = (if n < 10 then [digit_char n] else show_nat (n div 10) @ [digit_char (n mod 10)])"

declare show_nat.simps [simp del]

text \<open>\<open>String(int)\<close> and \<open>%d\<close> on a signed value.\<close>

definition show_int :: "int \<Rightarrow> string" where
  "show_int i = (if i < 0 then CHR ''-'' # show_nat (nat (- i)) else show_nat (nat i))"

text \<open>\<open>%0wd\<close> on a non-negative value: zero padding on the left up to width \<open>w\<close>.\<close>

definition pad0 :: "nat \<Rightarrow> nat \<Rightarrow> string" where
  "pad0 w n = replicate (w - length (show_nat n)) (CHR ''0'') @ show_nat n"

text \<open>
  \<open>String(float, decimalPlaces)\<close>, which the Arduino core implements with \<open>dtostrf\<close>:
  the magnitude plus half a unit of the last place, cut after \<open>prec\<close> decimals, with a
  leading minus sign for a negative value; \<open>nan\<close> and \<open>inf\<close> for the special values.
  The minimal width \<open>prec + 2\<close> that \<open>String\<close> asks for never needs padding.
\<close>

definition String_float :: "cfloat \<Rightarrow> nat \<Rightarrow> string" where
  "String_float x prec =
     (case x of
        NaN \<Rightarrow> ''nan''
      | MInf \<Rightarrow> ''inf''
      | PInf \<Rightarrow> ''inf''
      | Fin q \<Rightarrow>
          (let n = nat \<lfloor>(\<bar>q\<bar> + 1 / (2 * 10 ^ prec)) * 10 ^ prec\<rfloor>
           in (if q < 0 then ''-'' else '''') @ show_nat (n div 10 ^ prec) @
              (if prec > 0 then CHR ''.'' # pad0 prec (n mod 10 ^ prec) else '''')))"

text \<open>
  \<open>String::toInt\<close> is \<open>atol\<close>: leading white space, an optional sign, then decimal
  digits up to the first other character; no digits give 0. The value saturates at the
  range of a 32-bit \<open>long\<close>.
\<close>

definition isspace :: "char \<Rightarrow> bool" where
  "isspace c = (c \<in> set [CHR '' '', CHR 0x09, CHR 0x0A, CHR 0x0B, CHR 0x0C, CHR 0x0D])"

definition isdigit :: "char \<Rightarrow> bool" where
  "isdigit c = (c \<in> set ''0123456789'')"

fun atol_digits :: "int \<Rightarrow> string \<Rightarrow> int" where
  "atol_digits acc [] = acc"
| "atol_digits acc (c # cs) =
     (if isdigit c then atol_digits (acc * 10 + (of_char c - 48)) cs else acc)"

definition toInt :: "string \<Rightarrow> int" where
  "toInt s =
     (let s1 = dropWhile isspace s;
          v = (case s1 of
                 [] \<Rightarrow> 0
               | c # cs \<Rightarrow>
                   if c = CHR ''-'' then - atol_digits 0 cs
                   else if c = CHR ''+'' then atol_digits 0 cs
                   else atol_digits 0 s1)
      in max (- 2147483648) (min 2147483647 v))"

text \<open>
  RTClib's \<open>DateTime\<close>. The clock hands over the time of day and \<open>unixtime()\<close>; the
  calendar fields are needed only where \<open>handleCsv\<close> builds a \<open>DateTime\<close> from a stored
  timestamp.
\<close>

record DateTime =
  year :: nat
  month :: nat
  day :: nat
  hour :: nat
  minute :: nat
  second :: nat

definition daysInMonth :: "nat list" where
  "daysInMonth = [31, 28, 31, 30, 31, 30, 31, 31, 30, 31, 30]"

text \<open>
  The constructor \<open>DateTime(uint32_t t)\<close>: \<open>t\<close> is moved to the epoch of 2000 in
  32-bit arithmetic, split into seconds, minutes, hours and days, and the days are
  counted off year by year and month by month.
\<close>

function year_loop :: "nat \<Rightarrow> nat \<Rightarrow> nat \<times> nat \<times> bool" where
  "year_loop yOff days =
     (let leap = (yOff mod 4 = 0);
          len = 365 + (if leap then 1 else 0)
      in if days < len then (yOff, days, leap) else year_loop (yOff + 1) (days - len))"
  by pat_completeness auto
termination
  by (relation "measure (\<lambda>(yOff, days). days)") auto

declare year_loop.simps [simp del]

function month_loop :: "nat \<Rightarrow> nat \<Rightarrow> bool \<Rightarrow> nat \<times> nat" where
  "month_loop m days leap =
     (if m < 12 then
        (let daysPerMonth = daysInMonth ! (m - 1) + (if leap \<and> m = 2 then 1 else 0)
         in if days < daysPerMonth then (m, days)
            else month_loop (m + 1) (days - daysPerMonth) leap)
      else (m, days))"
  by pat_completeness auto
termination
  by (relation "measure (\<lambda>(m, days, leap). 12 - m)") auto

declare month_loop.simps [simp del]

definition DateTime_of_unix :: "32 word \<Rightarrow> DateTime" where
  "DateTime_of_unix ts =
     (let t = unat (ts - 946684800);
          ss = t mod 60;
          t1 = t div 60;
          mm = t1 mod 60;
          t2 = t1 div 60;
          hh = t2 mod 24;
          days = t2 div 24;
          (yOff, days1, leap) = year_loop 0 days;
          (m, days2) = month_loop 1 days1 leap
      in \<lparr>year = 2000 + yOff, month = m, day = days2 + 1, hour = hh, minute = mm, second = ss\<rparr>)"

subsection \<open>Global variables\<close>

definition HISTORY_SIZE :: int where
  "HISTORY_SIZE = 100"

definition UPDATE_INTERVAL :: "32 word" where
  "UPDATE_INTERVAL = 1000"

definition HISTORY_INTERVAL :: "32 word" where
  "HISTORY_INTERVAL = 60000"

text \<open>\<open>RELAY_ON = LOW\<close>: a pin level is a \<open>bool\<close>, \<open>HIGH\<close> being \<open>True\<close>.\<close>

definition RELAY_ON :: bool where
  "RELAY_ON = False"

text \<open>The struct \<open>HistoryEntry\<close>; its fields carry the prefix \<open>h_\<close> where the name is also a global.\<close>

record HistoryEntry =
  timestamp :: "32 word"
  h_temp :: cfloat
  h_press :: cfloat
  h_heap :: "32 word"
  h_rssi :: int

text \<open>
  The globals of the sketch that its logic reads or writes, and the levels last written
  to the three relay pins. \<open>cpuFreq\<close> and \<open>flashSize\<close> are constants shown by the
  dashboard only.
\<close>

record state =
  fanOn :: bool
  lightOn :: bool
  lampOn :: bool
  autoFanEnabled :: bool
  tempThreshold :: cfloat
  scheduleEnabled :: bool
  scheduleHour :: int
  scheduleMinute :: int
  temp :: cfloat
  press :: cfloat
  heap :: "32 word"
  rssi :: int
  logs :: string
  lastMinute :: int
  lastUpdate :: "32 word"
  lastHistory :: "32 word"
  history :: "HistoryEntry list"
  historyIndex :: int
  historyCount :: int
  fanPin :: bool
  lightPin :: bool
  lampPin :: bool

text \<open>
  The initial values of the globals; the array is zero-initialised. The pins are at the
  level that the first \<open>updateRelays()\<close> of \<open>setup()\<close> gives them, all
  devices being off. The lines that \<open>setup()\<close> writes to the log are left out.
\<close>

definition zero_entry :: HistoryEntry where
  "zero_entry = \<lparr>timestamp = 0, h_temp = Fin 0, h_press = Fin 0, h_heap = 0, h_rssi = 0\<rparr>"

definition init_state :: state where
  "init_state =
     \<lparr>fanOn = False, lightOn = False, lampOn = False, autoFanEnabled = False,
      tempThreshold = Fin 25, scheduleEnabled = False, scheduleHour = 0, scheduleMinute = 0,
      temp = Fin 0, press = Fin 0, heap = 0, rssi = 0, logs = [], lastMinute = - 1,
      lastUpdate = 0, lastHistory = 0, history = replicate (nat HISTORY_SIZE) zero_entry,
      historyIndex = 0, historyCount = 0, fanPin = True, lightPin = True, lampPin = True\<rparr>"

subsection \<open>Helpers of the sketch\<close>

text \<open>\<open>updateRelays\<close>: each pin is driven to \<open>RELAY_ON\<close> exactly when its device is on.\<close>

definition updateRelays :: "state \<Rightarrow> state" where
  "updateRelays s =
     s\<lparr>fanPin := (if fanOn s then RELAY_ON else \<not> RELAY_ON),
       lightPin := (if lightOn s then RELAY_ON else \<not> RELAY_ON),
       lampPin := (if lampOn s then RELAY_ON else \<not> RELAY_ON)\<rparr>"

text \<open>
  \<open>addLog\<close>: the new line goes in front and the log is cut at 1000 characters. The
  argument \<open>now\<close> is what \<open>rtc.now()\<close> returns inside \<open>addLog\<close>.
\<close>

definition addLog :: "DateTime \<Rightarrow> string \<Rightarrow> state \<Rightarrow> state" where
  "addLog now msg s =
     (let buf = pad0 2 (hour now) @ '':'' @ pad0 2 (minute now) @ '':'' @ pad0 2 (second now) @ '' '';
          l = buf @ msg @ [CHR 0x0A] @ logs s
      in s\<lparr>logs := (if length l > 1000 then take 1000 l else l)\<rparr>)"

subsection \<open>The tick: \<open>updateSensorsAndLogic\<close>\<close>

text \<open>
  What one tick reads from its surroundings: the two sensor values, the free heap, the
  signal strength, the clock (\<open>rtc.now()\<close> at the top of the tick, the value of
  \<open>now.unixtime()\<close>, and \<open>rtc.now()\<close> as read again inside \<open>addLog\<close>) and \<open>millis()\<close>.
\<close>

record tick_input =
  readTemperature :: cfloat
  readPressure :: cfloat
  getFreeHeap :: "32 word"
  wifiRSSI :: int
  rtc_now :: DateTime
  unixtime :: "32 word"
  log_now :: DateTime
  millis :: "32 word"

text \<open>Reading the sensors: a value that is not a number leaves the stored one as it is.\<close>

definition read_sensors :: "tick_input \<Rightarrow> state \<Rightarrow> state" where
  "read_sensors inp s =
     (let newTemp = readTemperature inp;
          s1 = (if \<not> isnan newTemp then s\<lparr>temp := newTemp\<rparr> else s);
          newPress = cf_div100 (readPressure inp);
          s2 = (if \<not> isnan newPress then s1\<lparr>press := newPress\<rparr> else s1)
      in s2\<lparr>heap := getFreeHeap inp, rssi := wifiRSSI inp\<rparr>)"

text \<open>The condition of the scheduling \<open>if\<close>.\<close>

definition schedule_due :: "DateTime \<Rightarrow> state \<Rightarrow> bool" where
  "schedule_due now s =
     (scheduleEnabled s \<and> int (hour now) = scheduleHour s \<and>
      int (minute now) = scheduleMinute s \<and> lastMinute s \<noteq> int (minute now))"

definition scheduling :: "tick_input \<Rightarrow> state \<Rightarrow> state" where
  "scheduling inp s =
     (let now = rtc_now inp;
          currentMinute = int (minute now)
      in if schedule_due now s
         then (addLog (log_now inp) ''Scheduled Fan ON'' (s\<lparr>fanOn := True\<rparr>))
                \<lparr>lastMinute := currentMinute\<rparr>
         else s)"

text \<open>Automatic fan control.\<close>

definition auto_fan :: "state \<Rightarrow> state" where
  "auto_fan s =
     (if autoFanEnabled s then
        (if cf_ge (temp s) (tempThreshold s) then s\<lparr>fanOn := True\<rparr> else s\<lparr>fanOn := False\<rparr>)
      else s)"

text \<open>
  Writing one entry into the ring: the slot \<open>history[historyIndex]\<close> is filled, the index
  advances modulo the size and the count grows up to the size.
\<close>

definition history_append :: "HistoryEntry \<Rightarrow> state \<Rightarrow> state option" where
  "history_append e s =
     (if 0 \<le> historyIndex s \<and> historyIndex s < int (length (history s)) then
        (let s1 = s\<lparr>history := (history s)[nat (historyIndex s) := e]\<rparr>;
             s2 = s1\<lparr>historyIndex := c_rem (historyIndex s1 + 1) HISTORY_SIZE\<rparr>
         in Some (if historyCount s2 < HISTORY_SIZE
                  then s2\<lparr>historyCount := historyCount s2 + 1\<rparr> else s2))
      else None)"

text \<open>The sample of this tick is stored when a history interval has passed.\<close>

definition add_to_history :: "tick_input \<Rightarrow> state \<Rightarrow> state option" where
  "add_to_history inp s =
     (let currentMillis = millis inp
      in if currentMillis - lastHistory s \<ge> HISTORY_INTERVAL then
           (case history_append
                   \<lparr>timestamp = unixtime inp, h_temp = temp s, h_press = press s,
                    h_heap = heap s, h_rssi = rssi s\<rparr> s of
              None \<Rightarrow> None
            | Some s1 \<Rightarrow> Some (s1\<lparr>lastHistory := currentMillis\<rparr>))
         else Some s)"

text \<open>
  The whole tick, in the order of the source. \<open>updateLCD\<close> only prints to the display
  and touches no variable.
\<close>

definition updateSensorsAndLogic :: "tick_input \<Rightarrow> state \<Rightarrow> state option" where
  "updateSensorsAndLogic inp s =
     add_to_history inp (updateRelays (auto_fan (scheduling inp (read_sensors inp s))))"

text \<open>
  One pass of \<open>loop()\<close> after \<open>server.handleClient()\<close>: the tick runs when an
  update interval has passed since the last one. \<open>currentMillis\<close> is \<open>millis()\<close> as
  read in \<open>loop()\<close>.
\<close>

definition loop_tick :: "32 word \<Rightarrow> tick_input \<Rightarrow> state \<Rightarrow> state option" where
  "loop_tick currentMillis inp s =
     (if currentMillis - lastUpdate s \<ge> UPDATE_INTERVAL then
        (case updateSensorsAndLogic inp s of
           None \<Rightarrow> None
         | Some s1 \<Rightarrow> Some (s1\<lparr>lastUpdate := currentMillis\<rparr>))
      else Some s)"

text \<open>A run of ticks, one input per tick; it stops at the first undefined access.\<close>

fun run_ticks :: "tick_input list \<Rightarrow> state \<Rightarrow> state option" where
  "run_ticks [] s = Some s"
| "run_ticks (inp # inps) s =
     (case updateSensorsAndLogic inp s of None \<Rightarrow> None | Some s1 \<Rightarrow> run_ticks inps s1)"

text \<open>
  How often the schedule rule fires during a run: the number of ticks whose scheduling
  \<open>if\<close> is taken. The sensors are read first, as in the tick.
\<close>

fun count_fires :: "tick_input list \<Rightarrow> state \<Rightarrow> nat" where
  "count_fires [] s = 0"
| "count_fires (inp # inps) s =
     (if schedule_due (rtc_now inp) (read_sensors inp s) then 1 else 0) +
     (case updateSensorsAndLogic inp s of None \<Rightarrow> 0 | Some s1 \<Rightarrow> count_fires inps s1)"

subsection \<open>The HTTP handlers\<close>

text \<open>
  A request is the list of its query arguments; \<open>server.arg\<close> returns the value of the
  first argument of that name and the empty string when there is none.
\<close>

type_synonym request = "(string \<times> string) list"

definition server_arg :: "request \<Rightarrow> string \<Rightarrow> string" where
  "server_arg req name = (case map_of req name of None \<Rightarrow> [] | Some v \<Rightarrow> v)"

text \<open>
  \<open>handleHistory\<close>: the loop over \<open>i\<close> collects the entries of the array that go into the
  JSON array, oldest first. The JSON text itself is ArduinoJson's work.
\<close>

definition ring_idx :: "state \<Rightarrow> int \<Rightarrow> int" where
  "ring_idx s i = c_rem (historyIndex s - historyCount s + i + HISTORY_SIZE) HISTORY_SIZE"

function handleHistory_loop :: "state \<Rightarrow> int \<Rightarrow> HistoryEntry list \<Rightarrow> HistoryEntry list option" where
  "handleHistory_loop s i arr =
     (if i < historyCount s then
        (let idx = ring_idx s i
         in if 0 \<le> idx \<and> idx < int (length (history s))
            then handleHistory_loop s (i + 1) (arr @ [history s ! nat idx])
            else None)
      else Some arr)"
  by pat_completeness auto
termination
  by (relation "measure (\<lambda>(s, i, arr). nat (historyCount s - i))") auto

declare handleHistory_loop.simps [simp del]

definition handleHistory :: "state \<Rightarrow> HistoryEntry list option" where
  "handleHistory s = handleHistory_loop s 0 []"

text \<open>\<open>handleControl\<close>: a manual command for one of the three devices.\<close>

definition handleControl :: "request \<Rightarrow> DateTime \<Rightarrow> state \<Rightarrow> state" where
  "handleControl req now s =
     (let device = server_arg req ''device'';
          state = server_arg req ''state'';
          newState = (state = ''on'');
          s1 = (if device = ''fan'' then s\<lparr>fanOn := newState\<rparr>
                else if device = ''light'' then s\<lparr>lightOn := newState\<rparr>
                else if device = ''lamp'' then s\<lparr>lampOn := newState\<rparr>
                else s)
      in updateRelays (addLog now (device @ '' turned '' @ state) s1))"

text \<open>
  \<open>handleSet\<close>: the two configuration commands. \<open>String::toFloat\<close> is the parameter
  \<open>toFloat\<close>.
\<close>

definition handleSet :: "(string \<Rightarrow> cfloat) \<Rightarrow> request \<Rightarrow> DateTime \<Rightarrow> state \<Rightarrow> state" where
  "handleSet toFloat req now s =
     (let type = server_arg req ''type''
      in if type = ''auto'' then
           (let s1 = s\<lparr>autoFanEnabled := (server_arg req ''enable'' = ''true'')\<rparr>;
                s2 = s1\<lparr>tempThreshold := toFloat (server_arg req ''threshold'')\<rparr>
            in addLog now
                 (''Auto Fan: '' @ (if autoFanEnabled s2 then ''enabled'' else ''disabled'') @
                  '', threshold: '' @ String_float (tempThreshold s2) 2) s2)
         else if type = ''schedule'' then
           (let s1 = s\<lparr>scheduleEnabled := (server_arg req ''enable'' = ''true'')\<rparr>;
                s2 = s1\<lparr>scheduleHour := toInt (server_arg req ''hour'')\<rparr>;
                s3 = s2\<lparr>scheduleMinute := toInt (server_arg req ''minute'')\<rparr>
            in addLog now
                 (''Schedule: '' @ (if scheduleEnabled s3 then ''enabled'' else ''disabled'') @
                  '', time: '' @ show_int (scheduleHour s3) @ '':'' @ show_int (scheduleMinute s3)) s3)
         else s)"

text \<open>\<open>handleCsv\<close>: the header line, then one line per entry in the order of \<open>handleHistory\<close>.\<close>

definition csv_header :: string where
  "csv_header = ''Timestamp,Temperature,Pressure,Heap,RSSI'' @ [CHR 0x0A]"

definition csv_tbuf :: "DateTime \<Rightarrow> string" where
  "csv_tbuf dt =
     pad0 4 (year dt) @ ''-'' @ pad0 2 (month dt) @ ''-'' @ pad0 2 (day dt) @ '' '' @
     pad0 2 (hour dt) @ '':'' @ pad0 2 (minute dt) @ '':'' @ pad0 2 (second dt)"

definition csv_row :: "HistoryEntry \<Rightarrow> string" where
  "csv_row h =
     csv_tbuf (DateTime_of_unix (timestamp h)) @
     '','' @ String_float (h_temp h) 1 @
     '','' @ String_float (h_press h) 1 @
     '','' @ show_nat (unat (h_heap h)) @
     '','' @ show_int (h_rssi h) @ [CHR 0x0A]"

function handleCsv_loop :: "state \<Rightarrow> int \<Rightarrow> string \<Rightarrow> string option" where
  "handleCsv_loop s i csv =
     (if i < historyCount s then
        (let idx = ring_idx s i
         in if 0 \<le> idx \<and> idx < int (length (history s))
            then handleCsv_loop s (i + 1) (csv @ csv_row (history s ! nat idx))
            else None)
      else Some csv)"
  by pat_completeness auto
termination
  by (relation "measure (\<lambda>(s, i, csv). nat (historyCount s - i))") auto

declare handleCsv_loop.simps [simp del]

definition handleCsv :: "state \<Rightarrow> string option" where
  "handleCsv s = handleCsv_loop s 0 csv_header"

subsection \<open>The ring store as a queue\<close>

text \<open>
  The bounds that the three ring variables keep: the array has \<open>HISTORY_SIZE\<close> slots,
  the write index points at a slot and the count does not exceed the size.
\<close>

definition ring_inv :: "state \<Rightarrow> bool" where
  "ring_inv s =
     (int (length (history s)) = HISTORY_SIZE \<and> 0 \<le> historyIndex s \<and>
      historyIndex s < HISTORY_SIZE \<and> 0 \<le> historyCount s \<and> historyCount s \<le> HISTORY_SIZE)"

text \<open>The stored samples from the oldest to the newest, read off the array directly.\<close>

definition ring_view :: "state \<Rightarrow> HistoryEntry list" where
  "ring_view s = map (\<lambda>k. history s ! nat (ring_idx s (int k))) [0..<nat (historyCount s)]"

text \<open>A sequence of appends, in order.\<close>

fun history_appends :: "HistoryEntry list \<Rightarrow> state \<Rightarrow> state option" where
  "history_appends [] s = Some s"
| "history_appends (e # es) s =
     (case history_append e s of None \<Rightarrow> None | Some s1 \<Rightarrow> history_appends es s1)"

text \<open>The last \<open>c\<close> elements of a list, all of it when it is shorter.\<close>

definition last_n :: "nat \<Rightarrow> 'a list \<Rightarrow> 'a list" where
  "last_n c xs = drop (length xs - c) xs"

text \<open>
  The stored readings are numbers: the two current values and every slot of the array.
\<close>

definition valid_readings :: "state \<Rightarrow> bool" where
  "valid_readings s =
     (\<not> isnan (temp s) \<and> \<not> isnan (press s) \<and>
      list_all (\<lambda>e. \<not> isnan (h_temp e) \<and> \<not> isnan (h_press e)) (history s))"

subsection \<open>Concrete inputs for the examples\<close>

definition sample :: "nat \<Rightarrow> HistoryEntry" where
  "sample n = \<lparr>timestamp = of_nat n, h_temp = Fin 20, h_press = Fin 1013, h_heap = 30000, h_rssi = - 60\<rparr>"

definition clock :: "nat \<Rightarrow> nat \<Rightarrow> nat \<Rightarrow> nat \<Rightarrow> DateTime" where
  "clock d h m sec = \<lparr>year = 2024, month = 1, day = d, hour = h, minute = m, second = sec\<rparr>"

definition seconds_of :: "DateTime \<Rightarrow> nat" where
  "seconds_of now = (((day now - 1) * 24 + hour now) * 60 + minute now) * 60 + second now"

text \<open>
  A tick in January 2024 on a device started at midnight of the first day: the clock, the
  Unix time and the millisecond counter agree.
\<close>

definition tick_at :: "cfloat \<Rightarrow> DateTime \<Rightarrow> tick_input" where
  "tick_at t now =
     \<lparr>readTemperature = t, readPressure = Fin 101300, getFreeHeap = 30000, wifiRSSI = - 60,
      rtc_now = now, unixtime = of_nat (1704067200 + seconds_of now), log_now = now,
      millis = of_nat (1000 * seconds_of now)\<rparr>"

definition fan_on_request :: request where
  "fan_on_request = [(''device'', ''fan''), (''state'', ''on'')]"

definition auto_request :: request where
  "auto_request = [(''type'', ''auto''), (''enable'', ''true''), (''threshold'', ''20'')]"

definition light_on_state :: state where
  "light_on_state = init_state\<lparr>lightOn := True\<rparr>"

definition manual_fan_on :: state where
  "manual_fan_on = handleControl fan_on_request (clock 1 6 0 0) init_state"

definition minute_of_ticks :: "tick_input list" where
  "minute_of_ticks = map (\<lambda>n. tick_at (Fin 30) (clock 1 6 0 n)) [0..<60]"

definition fan_upper_request :: request where
  "fan_upper_request = [(''device'', ''fan''), (''state'', ''ON'')]"

definition lamp_on_request :: request where
  "lamp_on_request = [(''device'', ''lamp''), (''state'', ''on'')]"

definition heater_request :: request where
  "heater_request = [(''device'', ''heater''), (''state'', ''on'')]"

definition bad_schedule_request :: request where
  "bad_schedule_request =
     [(''type'', ''schedule''), (''enable'', ''true''), (''hour'', ''25''), (''minute'', ''90'')]"

definition morning_schedule_request :: request where
  "morning_schedule_request =
     [(''type'', ''schedule''), (''enable'', ''true''), (''hour'', ''6''), (''minute'', ''0'')]"

definition schedule_on :: state where
  "schedule_on = handleSet (\<lambda>x. Fin 20) morning_schedule_request (clock 1 5 59 0) init_state"

definition two_mornings :: "tick_input list" where
  "two_mornings =
     [tick_at (Fin 20) (clock 1 6 0 0), tick_at (Fin 20) (clock 1 6 1 0),
      tick_at (Fin 20) (clock 2 6 0 0)]"

subsection \<open>Reading the CSV export back\<close>


text \<open>
  Reading a CSV text back: the text is cut at every line feed, the piece after the last
  line feed is dropped, and every line is cut at every comma.
\<close>

fun split_on :: "char \<Rightarrow> string \<Rightarrow> string list" where
  "split_on c [] = [[]]"
| "split_on c (x # xs) =
     (if x = c then [] # split_on c xs
      else (case split_on c xs of [] \<Rightarrow> [[x]] | f # fs \<Rightarrow> (x # f) # fs))"



definition csv_header_fields :: "string list" where
  "csv_header_fields = [''Timestamp'', ''Temperature'', ''Pressure'', ''Heap'', ''RSSI'']"

definition one_sample :: "HistoryEntry \<Rightarrow> state" where
  "one_sample e =
     init_state\<lparr>history := (history init_state)[0 := e], historyIndex := 1, historyCount := 1\<rparr>"

definition warm_a :: HistoryEntry where
  "warm_a = \<lparr>timestamp = 1704088800, h_temp = Fin 20, h_press = Fin 1013, h_heap = 30000, h_rssi = - 60\<rparr>"


text \<open>A text without comma and line feed.\<close>

definition plain :: "string \<Rightarrow> bool" where
  "plain s = (CHR '','' \<notin> set s \<and> CHR 0x0A \<notin> set s)"

definition auto_warm_state :: state where
  "auto_warm_state = init_state\<lparr>temp := Fin (47 / 2), autoFanEnabled := True, fanOn := True\<rparr>"

definition invalid_tick :: tick_input where
  "invalid_tick = (tick_at NaN (clock 1 6 0 0))\<lparr>readPressure := NaN\<rparr>"

section \<open>Properties\<close>

subsection \<open>Arithmetic of the ring index\<close>

lemma mod100_cases: "0 \<le> (a::int) \<Longrightarrow> a < 200 \<Longrightarrow> a mod 100 = (if a < 100 then a else a - 100)"
  by (auto simp: mod_pos_pos_trivial) (metis diff_ge_0_iff_ge diff_less_eq minus_mod_self2 mod_pos_pos_trivial not_less numeral_Bit0)

lemma mod100_shift_neq: "0 \<le> j \<Longrightarrow> j < 100 \<Longrightarrow> 0 < d \<Longrightarrow> d < 100 \<Longrightarrow> (j + d) mod 100 \<noteq> (j::int)"
  by (simp add: mod100_cases)

lemma mod100_succ: "((j + 1) mod 100 - m + k + 100) mod 100 = (j + 1 - m + k + 100) mod (100::int)"
proof -
  have "((j + 1) mod 100 - m + k + 100) mod 100 = ((j + 1) mod 100 + (k - m + 100)) mod 100"
    by (simp add: algebra_simps)
  also have "\<dots> = ((j + 1) + (k - m + 100)) mod 100"
    by (rule mod_add_left_eq)
  also have "\<dots> = (j + 1 - m + k + 100) mod 100"
    by (simp add: algebra_simps)
  finally show ?thesis .
qed

lemma c_rem_nonneg: "0 \<le> a \<Longrightarrow> 0 < b \<Longrightarrow> c_rem a b = a mod b"
  by (cases "a = 0") (simp_all add: c_rem_def)

lemma ring_idx_mod: "ring_inv s \<Longrightarrow> 0 \<le> i \<Longrightarrow> ring_idx s i = (historyIndex s - historyCount s + i + 100) mod 100"
  by (simp add: ring_idx_def ring_inv_def HISTORY_SIZE_def c_rem_nonneg)

lemma ring_idx_bounds: "ring_inv s \<Longrightarrow> 0 \<le> i \<Longrightarrow> 0 \<le> ring_idx s i \<and> ring_idx s i < int (length (history s))"
  by (simp add: ring_idx_mod) (simp add: ring_inv_def HISTORY_SIZE_def)

lemma handleHistory_loop_eq:
  "ring_inv s \<Longrightarrow> 0 \<le> i \<Longrightarrow>
   handleHistory_loop s i arr =
     Some (arr @ map (\<lambda>k. history s ! nat (ring_idx s (int k))) [nat i..<nat (historyCount s)])"
proof (induction s i arr rule: handleHistory_loop.induct)
  case (1 s i arr)
  show ?case
  proof (cases "i < historyCount s")
    case True
    have b: "0 \<le> ring_idx s i \<and> ring_idx s i < int (length (history s))"
      using "1.prems" by (simp add: ring_idx_bounds)
    have u: "[nat i..<nat (historyCount s)] = nat i # [nat (i + 1)..<nat (historyCount s)]"
      using True "1.prems" by (simp add: upt_conv_Cons nat_add_distrib)
    have "handleHistory_loop s i arr = handleHistory_loop s (i + 1) (arr @ [history s ! nat (ring_idx s i)])"
      using True b by (subst handleHistory_loop.simps) simp
    also have "\<dots> = Some ((arr @ [history s ! nat (ring_idx s i)]) @
        map (\<lambda>k. history s ! nat (ring_idx s (int k))) [nat (i + 1)..<nat (historyCount s)])"
      using "1.IH"[OF True refl] b "1.prems" by simp
    finally show ?thesis using u "1.prems" by simp
  next
    case False
    then show ?thesis by (subst handleHistory_loop.simps) simp
  qed
qed

lemma handleHistory_view: "ring_inv s \<Longrightarrow> handleHistory s = Some (ring_view s)"
  by (simp add: handleHistory_def handleHistory_loop_eq ring_view_def)

subsection \<open>Appending to the ring\<close>

lemma history_append_Some:
  assumes "ring_inv s"
  shows "history_append e s =
     Some (s\<lparr>history := (history s)[nat (historyIndex s) := e],
             historyIndex := (historyIndex s + 1) mod 100,
             historyCount := (if historyCount s < 100 then historyCount s + 1 else historyCount s)\<rparr>)"
  using assms
  by (simp add: history_append_def ring_inv_def HISTORY_SIZE_def c_rem_nonneg Let_def)

lemma history_append_inv:
  assumes "ring_inv s" "history_append e s = Some s'"
  shows "ring_inv s'"
  using assms by (auto simp: history_append_Some) (auto simp: ring_inv_def HISTORY_SIZE_def)

lemma length_ring_view: "length (ring_view s) = nat (historyCount s)"
  by (simp add: ring_view_def)

lemma nth_ring_view:
  "k < nat (historyCount s) \<Longrightarrow> ring_view s ! k = history s ! nat (ring_idx s (int k))"
  by (simp add: ring_view_def)

lemma ring_view_append:
  assumes inv: "ring_inv s" and app: "history_append e s = Some s'"
  shows "ring_view s' =
     (if historyCount s < HISTORY_SIZE then ring_view s @ [e] else tl (ring_view s) @ [e])"
proof -
  let ?j = "historyIndex s" and ?n = "historyCount s" and ?h = "history s"
  have len: "length ?h = 100" and j: "0 \<le> ?j" "?j < 100" and n: "0 \<le> ?n" "?n \<le> 100"
    using inv by (auto simp: ring_inv_def HISTORY_SIZE_def)
  have s': "s' = s\<lparr>history := ?h[nat ?j := e], historyIndex := (?j + 1) mod 100,
             historyCount := (if ?n < 100 then ?n + 1 else ?n)\<rparr>"
    using app history_append_Some[OF inv, of e] by simp
  have h': "history s' = ?h[nat ?j := e]" using s' by simp
  have inv': "ring_inv s'" using history_append_inv[OF inv app] .
  have idx: "\<And>k. ring_idx s (int k) = (?j - ?n + int k + 100) mod 100"
    using inv by (simp add: ring_idx_mod)
  have idx': "\<And>k. ring_idx s' (int k) = (historyIndex s' - historyCount s' + int k + 100) mod 100"
    using inv' by (simp add: ring_idx_mod)
  have jn: "nat ?j < length ?h" using j len by simp
  show ?thesis
  proof (cases "?n < 100")
    case True
    have cnt: "historyCount s' = ?n + 1" and ix: "historyIndex s' = (?j + 1) mod 100"
      using True s' by simp_all
    have cn: "nat (historyCount s') = Suc (nat ?n)" using n cnt by simp
    have same: "\<And>k. ring_idx s' (int k) = ring_idx s (int k)"
      unfolding idx idx' cnt ix mod100_succ by simp
    have "ring_view s' = ring_view s @ [e]"
    proof (rule nth_equalityI)
      show "length (ring_view s') = length (ring_view s @ [e])"
        by (simp add: length_ring_view cn)
    next
      fix k assume "k < length (ring_view s')"
      then have k: "k < Suc (nat ?n)" by (simp add: length_ring_view cn)
      then have k': "k < nat (historyCount s')" by (simp add: cn)
      show "ring_view s' ! k = (ring_view s @ [e]) ! k"
      proof (cases "k < nat ?n")
        case kl: True
        have ne: "nat (ring_idx s (int k)) \<noteq> nat ?j"
        proof -
          have "(?j + (100 - ?n + int k)) mod 100 \<noteq> ?j"
            using kl j n True by (intro mod100_shift_neq) simp_all
          then have "(?j - ?n + int k + 100) mod 100 \<noteq> ?j" by (simp add: algebra_simps)
          moreover have "0 \<le> (?j - ?n + int k + 100) mod 100" by simp
          ultimately show ?thesis using j unfolding idx by linarith
        qed
        have "ring_view s' ! k = history s' ! nat (ring_idx s' (int k))"
          using k' by (rule nth_ring_view)
        also have "\<dots> = ?h ! nat (ring_idx s (int k))"
          using ne by (simp add: same h')
        also have "\<dots> = ring_view s ! k"
          using kl by (simp add: nth_ring_view)
        also have "\<dots> = (ring_view s @ [e]) ! k"
          using kl by (simp add: nth_append length_ring_view)
        finally show ?thesis .
      next
        case False
        then have ke: "k = nat ?n" using k by simp
        have "ring_idx s (int k) = ?j" unfolding idx using ke n j by simp
        then have "history s' ! nat (ring_idx s' (int k)) = e"
          using jn by (simp add: same h')
        then have "ring_view s' ! k = e"
          using k' by (simp add: nth_ring_view)
        then show ?thesis using ke by (simp add: nth_append length_ring_view)
      qed
    qed
    then show ?thesis using True by (simp add: HISTORY_SIZE_def)
  next
    case False
    then have nn: "?n = 100" using n by simp
    have cnt: "historyCount s' = 100" and ix: "historyIndex s' = (?j + 1) mod 100"
      using False nn s' by simp_all
    have shift: "\<And>k. ring_idx s' (int k) = ring_idx s (int (Suc k))"
      unfolding idx idx' cnt ix nn mod100_succ by (simp add: algebra_simps)
    have "ring_view s' = tl (ring_view s) @ [e]"
    proof (rule nth_equalityI)
      show "length (ring_view s') = length (tl (ring_view s) @ [e])"
        by (simp add: length_ring_view cnt nn)
    next
      fix k assume "k < length (ring_view s')"
      then have k: "k < 100" by (simp add: length_ring_view cnt)
      then have k': "k < nat (historyCount s')" by (simp add: cnt)
      show "ring_view s' ! k = (tl (ring_view s) @ [e]) ! k"
      proof (cases "k < 99")
        case kl: True
        have ne: "nat (ring_idx s (int (Suc k))) \<noteq> nat ?j"
        proof -
          have "(?j + int (Suc k)) mod 100 \<noteq> ?j"
            using kl j by (intro mod100_shift_neq) simp_all
          then have "(?j - 100 + int (Suc k) + 100) mod 100 \<noteq> ?j" by (simp add: algebra_simps)
          moreover have "0 \<le> (?j - 100 + int (Suc k) + 100) mod 100" by simp
          ultimately show ?thesis using j unfolding idx nn by linarith
        qed
        have "ring_view s' ! k = history s' ! nat (ring_idx s' (int k))"
          using k' by (rule nth_ring_view)
        also have "\<dots> = ?h ! nat (ring_idx s (int (Suc k)))"
          using ne by (simp add: shift h')
        also have "\<dots> = ring_view s ! Suc k"
          using kl by (simp add: nth_ring_view nn)
        also have "\<dots> = (tl (ring_view s) @ [e]) ! k"
          using kl by (simp add: nth_append length_ring_view nn nth_tl)
        finally show ?thesis .
      next
        case False
        then have ke: "k = 99" using k by simp
        have "ring_idx s (int (Suc k)) = ?j" unfolding idx nn using ke j by simp
        then have "history s' ! nat (ring_idx s' (int k)) = e"
          using jn by (simp add: shift h')
        then have "ring_view s' ! k = e"
          using k' by (simp add: nth_ring_view)
        then show ?thesis using ke by (simp add: nth_append length_ring_view nn)
      qed
    qed
    then show ?thesis using False by (simp add: HISTORY_SIZE_def)
  qed
qed

lemma last_n_append_last_n: "last_n c (last_n c xs @ es) = last_n c (xs @ es)"
  by (cases "length xs \<le> c") (simp_all add: last_n_def add.commute)

lemma ring_view_append_last_n:
  assumes "ring_inv s" "history_append e s = Some s'"
  shows "ring_view s' = last_n 100 (ring_view s @ [e])"
proof -
  have n: "0 \<le> historyCount s" "historyCount s \<le> 100"
    using assms(1) by (auto simp: ring_inv_def HISTORY_SIZE_def)
  show ?thesis
  proof (cases "historyCount s < 100")
    case True
    then show ?thesis
      using ring_view_append[OF assms] n by (simp add: last_n_def HISTORY_SIZE_def length_ring_view)
  next
    case False
    then have "length (ring_view s) = 100" using n by (simp add: length_ring_view)
    then show ?thesis
      using ring_view_append[OF assms] False
      by (cases "ring_view s") (simp_all add: last_n_def HISTORY_SIZE_def)
  qed
qed

lemma history_appends_view:
  "ring_inv s \<Longrightarrow>
   \<exists>s'. history_appends es s = Some s' \<and> ring_inv s' \<and>
        ring_view s' = last_n 100 (ring_view s @ es)"
proof (induction es arbitrary: s)
  case Nil
  then have "length (ring_view s) \<le> 100"
    by (auto simp: length_ring_view ring_inv_def HISTORY_SIZE_def)
  then show ?case using Nil by (simp add: last_n_def)
next
  case (Cons e es)
  obtain s1 where s1: "history_append e s = Some s1"
    using Cons.prems by (simp add: history_append_Some)
  have inv1: "ring_inv s1" using history_append_inv[OF Cons.prems s1] .
  obtain s' where s': "history_appends es s1 = Some s'" "ring_inv s'"
      "ring_view s' = last_n 100 (ring_view s1 @ es)"
    using Cons.IH[OF inv1] by blast
  have "ring_view s' = last_n 100 (last_n 100 (ring_view s @ [e]) @ es)"
    using s'(3) ring_view_append_last_n[OF Cons.prems s1] by simp
  also have "\<dots> = last_n 100 (ring_view s @ e # es)"
    by (simp add: last_n_append_last_n)
  finally show ?case using s1 s'(1,2) by simp
qed

subsection \<open>What each part of the tick changes\<close>

lemma read_sensors_frame [simp]:
  "fanOn (read_sensors inp s) = fanOn s"
  "lightOn (read_sensors inp s) = lightOn s"
  "lampOn (read_sensors inp s) = lampOn s"
  "autoFanEnabled (read_sensors inp s) = autoFanEnabled s"
  "tempThreshold (read_sensors inp s) = tempThreshold s"
  "scheduleEnabled (read_sensors inp s) = scheduleEnabled s"
  "scheduleHour (read_sensors inp s) = scheduleHour s"
  "scheduleMinute (read_sensors inp s) = scheduleMinute s"
  "lastMinute (read_sensors inp s) = lastMinute s"
  "history (read_sensors inp s) = history s"
  "historyIndex (read_sensors inp s) = historyIndex s"
  "historyCount (read_sensors inp s) = historyCount s"
  by (simp_all add: read_sensors_def Let_def)

lemma read_sensors_temp:
  "temp (read_sensors inp s) = (if isnan (readTemperature inp) then temp s else readTemperature inp)"
  by (simp add: read_sensors_def Let_def)

lemma read_sensors_press:
  "press (read_sensors inp s) =
     (if isnan (cf_div100 (readPressure inp)) then press s else cf_div100 (readPressure inp))"
  by (simp add: read_sensors_def Let_def)

lemma isnan_div100 [simp]: "isnan (cf_div100 x) = isnan x"
  by (cases x) simp_all

lemma isnan_iff: "isnan x = (x = NaN)"
  by (cases x) simp_all

lemma schedule_due_read_sensors [simp]:
  "schedule_due now (read_sensors inp s) = schedule_due now s"
  by (simp add: schedule_due_def)

lemma addLog_frame [simp]:
  "fanOn (addLog now msg s) = fanOn s"
  "lightOn (addLog now msg s) = lightOn s"
  "lampOn (addLog now msg s) = lampOn s"
  "autoFanEnabled (addLog now msg s) = autoFanEnabled s"
  "tempThreshold (addLog now msg s) = tempThreshold s"
  "scheduleEnabled (addLog now msg s) = scheduleEnabled s"
  "scheduleHour (addLog now msg s) = scheduleHour s"
  "scheduleMinute (addLog now msg s) = scheduleMinute s"
  "lastMinute (addLog now msg s) = lastMinute s"
  "temp (addLog now msg s) = temp s"
  "press (addLog now msg s) = press s"
  "history (addLog now msg s) = history s"
  "historyIndex (addLog now msg s) = historyIndex s"
  "historyCount (addLog now msg s) = historyCount s"
  by (simp_all add: addLog_def Let_def)

lemma scheduling_frame [simp]:
  "lightOn (scheduling inp s) = lightOn s"
  "lampOn (scheduling inp s) = lampOn s"
  "autoFanEnabled (scheduling inp s) = autoFanEnabled s"
  "tempThreshold (scheduling inp s) = tempThreshold s"
  "scheduleEnabled (scheduling inp s) = scheduleEnabled s"
  "scheduleHour (scheduling inp s) = scheduleHour s"
  "scheduleMinute (scheduling inp s) = scheduleMinute s"
  "temp (scheduling inp s) = temp s"
  "press (scheduling inp s) = press s"
  "history (scheduling inp s) = history s"
  "historyIndex (scheduling inp s) = historyIndex s"
  "historyCount (scheduling inp s) = historyCount s"
  by (simp_all add: scheduling_def Let_def)

lemma scheduling_fanOn:
  "fanOn (scheduling inp s) = (schedule_due (rtc_now inp) s \<or> fanOn s)"
  by (simp add: scheduling_def Let_def)

lemma scheduling_lastMinute:
  "lastMinute (scheduling inp s) =
     (if schedule_due (rtc_now inp) s then int (minute (rtc_now inp)) else lastMinute s)"
  by (simp add: scheduling_def Let_def)

lemma auto_fan_frame [simp]:
  "lightOn (auto_fan s) = lightOn s"
  "lampOn (auto_fan s) = lampOn s"
  "autoFanEnabled (auto_fan s) = autoFanEnabled s"
  "tempThreshold (auto_fan s) = tempThreshold s"
  "scheduleEnabled (auto_fan s) = scheduleEnabled s"
  "scheduleHour (auto_fan s) = scheduleHour s"
  "scheduleMinute (auto_fan s) = scheduleMinute s"
  "lastMinute (auto_fan s) = lastMinute s"
  "temp (auto_fan s) = temp s"
  "press (auto_fan s) = press s"
  "history (auto_fan s) = history s"
  "historyIndex (auto_fan s) = historyIndex s"
  "historyCount (auto_fan s) = historyCount s"
  by (simp_all add: auto_fan_def)

lemma auto_fan_fanOn:
  "fanOn (auto_fan s) = (if autoFanEnabled s then cf_ge (temp s) (tempThreshold s) else fanOn s)"
  by (simp add: auto_fan_def)

lemma updateRelays_frame [simp]:
  "fanOn (updateRelays s) = fanOn s"
  "lightOn (updateRelays s) = lightOn s"
  "lampOn (updateRelays s) = lampOn s"
  "autoFanEnabled (updateRelays s) = autoFanEnabled s"
  "tempThreshold (updateRelays s) = tempThreshold s"
  "scheduleEnabled (updateRelays s) = scheduleEnabled s"
  "scheduleHour (updateRelays s) = scheduleHour s"
  "scheduleMinute (updateRelays s) = scheduleMinute s"
  "lastMinute (updateRelays s) = lastMinute s"
  "temp (updateRelays s) = temp s"
  "press (updateRelays s) = press s"
  "history (updateRelays s) = history s"
  "historyIndex (updateRelays s) = historyIndex s"
  "historyCount (updateRelays s) = historyCount s"
  by (simp_all add: updateRelays_def)

lemma ring_inv_cong:
  "history s' = history s \<Longrightarrow> historyIndex s' = historyIndex s \<Longrightarrow>
   historyCount s' = historyCount s \<Longrightarrow> ring_inv s' = ring_inv s"
  by (simp add: ring_inv_def)

lemma history_append_frame:
  assumes "history_append e s = Some s'"
  shows "fanOn s' = fanOn s" "lightOn s' = lightOn s" "lampOn s' = lampOn s"
    "autoFanEnabled s' = autoFanEnabled s" "tempThreshold s' = tempThreshold s"
    "scheduleEnabled s' = scheduleEnabled s" "scheduleHour s' = scheduleHour s"
    "scheduleMinute s' = scheduleMinute s" "lastMinute s' = lastMinute s"
    "temp s' = temp s" "press s' = press s"
  using assms by (auto simp: history_append_def Let_def split: if_splits)

lemma add_to_history_Some:
  assumes "ring_inv s"
  shows "\<exists>s'. add_to_history inp s = Some s' \<and> ring_inv s' \<and>
     fanOn s' = fanOn s \<and> lightOn s' = lightOn s \<and> lampOn s' = lampOn s \<and>
     autoFanEnabled s' = autoFanEnabled s \<and> tempThreshold s' = tempThreshold s \<and>
     scheduleEnabled s' = scheduleEnabled s \<and> scheduleHour s' = scheduleHour s \<and>
     scheduleMinute s' = scheduleMinute s \<and> lastMinute s' = lastMinute s \<and>
     temp s' = temp s \<and> press s' = press s"
proof (cases "millis inp - lastHistory s \<ge> HISTORY_INTERVAL")
  case True
  let ?e = "\<lparr>timestamp = unixtime inp, h_temp = temp s, h_press = press s,
             h_heap = heap s, h_rssi = rssi s\<rparr>"
  obtain s1 where s1: "history_append ?e s = Some s1"
    using assms by (simp add: history_append_Some)
  have inv1: "ring_inv s1" using history_append_inv[OF assms s1] .
  have r: "add_to_history inp s = Some (s1\<lparr>lastHistory := millis inp\<rparr>)"
    using True s1 by (simp add: add_to_history_def Let_def)
  have "ring_inv (s1\<lparr>lastHistory := millis inp\<rparr>)"
    using inv1 by (simp add: ring_inv_def)
  then show ?thesis
    using r history_append_frame[OF s1] by simp
next
  case False
  then show ?thesis using assms by (simp add: add_to_history_def Let_def)
qed

text \<open>What one tick does to the variables that the decision logic reads and writes.\<close>

lemma tick_effect:
  assumes "ring_inv s"
  shows "\<exists>s'. updateSensorsAndLogic inp s = Some s' \<and> ring_inv s' \<and>
     lightOn s' = lightOn s \<and> lampOn s' = lampOn s \<and>
     autoFanEnabled s' = autoFanEnabled s \<and> tempThreshold s' = tempThreshold s \<and>
     scheduleEnabled s' = scheduleEnabled s \<and> scheduleHour s' = scheduleHour s \<and>
     scheduleMinute s' = scheduleMinute s \<and>
     lastMinute s' = (if schedule_due (rtc_now inp) s then int (minute (rtc_now inp)) else lastMinute s) \<and>
     temp s' = (if isnan (readTemperature inp) then temp s else readTemperature inp) \<and>
     press s' = (if isnan (readPressure inp) then press s else cf_div100 (readPressure inp)) \<and>
     fanOn s' = (if autoFanEnabled s then cf_ge (temp s') (tempThreshold s)
                 else (schedule_due (rtc_now inp) s \<or> fanOn s))"
proof -
  let ?m = "updateRelays (auto_fan (scheduling inp (read_sensors inp s)))"
  have "ring_inv ?m" using assms by (simp add: ring_inv_cong[of ?m s])
  from add_to_history_Some[OF this, of inp]
  obtain s' where s': "add_to_history inp ?m = Some s'" "ring_inv s'"
     "fanOn s' = fanOn ?m" "lightOn s' = lightOn ?m" "lampOn s' = lampOn ?m"
     "autoFanEnabled s' = autoFanEnabled ?m" "tempThreshold s' = tempThreshold ?m"
     "scheduleEnabled s' = scheduleEnabled ?m" "scheduleHour s' = scheduleHour ?m"
     "scheduleMinute s' = scheduleMinute ?m" "lastMinute s' = lastMinute ?m"
     "temp s' = temp ?m" "press s' = press ?m"
    by blast
  have "updateSensorsAndLogic inp s = Some s'"
    using s'(1) by (simp add: updateSensorsAndLogic_def)
  then show ?thesis
    using s'(2-) by (simp add: auto_fan_fanOn scheduling_fanOn scheduling_lastMinute
        read_sensors_temp read_sensors_press)
qed

lemma ring_inv_init: "ring_inv init_state"
  by (simp add: ring_inv_def init_state_def HISTORY_SIZE_def)

lemma ring_view_empty: "historyCount s = 0 \<Longrightarrow> ring_view s = []"
  by (simp add: ring_view_def)

lemma handleHistory_init: "handleHistory init_state = Some []"
  using ring_inv_init by (simp add: handleHistory_view ring_view_empty init_state_def)

lemma run_ticks_effect:
  assumes "ring_inv s"
  shows "\<exists>s'. run_ticks inps s = Some s' \<and> ring_inv s' \<and>
     lightOn s' = lightOn s \<and> lampOn s' = lampOn s \<and>
     autoFanEnabled s' = autoFanEnabled s \<and> tempThreshold s' = tempThreshold s \<and>
     scheduleEnabled s' = scheduleEnabled s \<and> scheduleHour s' = scheduleHour s \<and>
     scheduleMinute s' = scheduleMinute s"
  using assms
proof (induction inps arbitrary: s)
  case Nil
  then show ?case by simp
next
  case (Cons inp inps)
  obtain s1 where s1: "updateSensorsAndLogic inp s = Some s1" "ring_inv s1"
     "lightOn s1 = lightOn s" "lampOn s1 = lampOn s"
     "autoFanEnabled s1 = autoFanEnabled s" "tempThreshold s1 = tempThreshold s"
     "scheduleEnabled s1 = scheduleEnabled s" "scheduleHour s1 = scheduleHour s"
     "scheduleMinute s1 = scheduleMinute s"
    using tick_effect[OF Cons.prems, of inp] by blast
  show ?case using Cons.IH[OF s1(2)] s1 by simp
qed

subsection \<open>Valid readings\<close>

lemma history_append_entries:
  assumes "history_append e s = Some s'"
  shows "set (history s') \<subseteq> insert e (set (history s))"
  using assms
  by (auto simp: history_append_def Let_def split: if_splits dest: subsetD[OF set_update_subset_insert])

lemma add_to_history_entries:
  assumes "add_to_history inp s = Some s'" and "x \<in> set (history s')"
  shows "x \<in> set (history s) \<or> (h_temp x = temp s \<and> h_press x = press s)"
proof (cases "millis inp - lastHistory s \<ge> HISTORY_INTERVAL")
  case True
  let ?e = "\<lparr>timestamp = unixtime inp, h_temp = temp s, h_press = press s,
             h_heap = heap s, h_rssi = rssi s\<rparr>"
  obtain s1 where s1: "history_append ?e s = Some s1" and s': "s' = s1\<lparr>lastHistory := millis inp\<rparr>"
    using assms(1) True by (auto simp: add_to_history_def Let_def split: option.splits)
  have "x \<in> insert ?e (set (history s))"
    using history_append_entries[OF s1] assms(2) s' by auto
  then show ?thesis by auto
next
  case False
  then show ?thesis using assms by (simp add: add_to_history_def Let_def)
qed

lemma tick_valid_readings:
  assumes "updateSensorsAndLogic inp s = Some s'" and "valid_readings s"
  shows "valid_readings s'"
proof -
  let ?m = "updateRelays (auto_fan (scheduling inp (read_sensors inp s)))"
  have a: "add_to_history inp ?m = Some s'"
    using assms(1) by (simp add: updateSensorsAndLogic_def)
  have tm: "\<not> isnan (temp ?m)" and pm: "\<not> isnan (press ?m)"
    using assms(2) by (simp_all add: valid_readings_def read_sensors_temp read_sensors_press)
  have hm: "history ?m = history s" by simp
  have "temp s' = temp ?m" "press s' = press ?m"
    using a by (auto simp: add_to_history_def Let_def split: if_splits option.splits
        dest: history_append_frame(10,11))
  moreover have "\<And>x. x \<in> set (history s') \<Longrightarrow> \<not> isnan (h_temp x) \<and> \<not> isnan (h_press x)"
  proof -
    fix x assume "x \<in> set (history s')"
    from add_to_history_entries[OF a this]
    show "\<not> isnan (h_temp x) \<and> \<not> isnan (h_press x)"
      using tm pm assms(2) unfolding hm by (auto simp: valid_readings_def list_all_iff)
  qed
  ultimately show ?thesis using tm pm by (simp add: valid_readings_def list_all_iff)
qed

lemma valid_readings_init: "valid_readings init_state"
  by (simp add: valid_readings_def init_state_def list_all_iff zero_entry_def)

subsection \<open>The handlers\<close>

lemma handleSet_frame:
  "fanOn (handleSet tf req now s) = fanOn s"
  "lightOn (handleSet tf req now s) = lightOn s"
  "lampOn (handleSet tf req now s) = lampOn s"
  "history (handleSet tf req now s) = history s"
  "historyIndex (handleSet tf req now s) = historyIndex s"
  "historyCount (handleSet tf req now s) = historyCount s"
  "temp (handleSet tf req now s) = temp s"
  "press (handleSet tf req now s) = press s"
  "lastMinute (handleSet tf req now s) = lastMinute s"
  by (simp_all add: handleSet_def Let_def)

lemma handleControl_frame:
  "history (handleControl req now s) = history s"
  "historyIndex (handleControl req now s) = historyIndex s"
  "historyCount (handleControl req now s) = historyCount s"
  "autoFanEnabled (handleControl req now s) = autoFanEnabled s"
  "tempThreshold (handleControl req now s) = tempThreshold s"
  "scheduleEnabled (handleControl req now s) = scheduleEnabled s"
  "scheduleHour (handleControl req now s) = scheduleHour s"
  "scheduleMinute (handleControl req now s) = scheduleMinute s"
  "temp (handleControl req now s) = temp s"
  "press (handleControl req now s) = press s"
  "lastMinute (handleControl req now s) = lastMinute s"
  by (simp_all add: handleControl_def Let_def)

lemma handleControl_devices:
  "fanOn (handleControl req now s) =
     (if server_arg req ''device'' = ''fan'' then server_arg req ''state'' = ''on'' else fanOn s)"
  "lightOn (handleControl req now s) =
     (if server_arg req ''device'' = ''light'' then server_arg req ''state'' = ''on'' else lightOn s)"
  "lampOn (handleControl req now s) =
     (if server_arg req ''device'' = ''lamp'' then server_arg req ''state'' = ''on'' else lampOn s)"
  by (simp_all add: handleControl_def Let_def)

subsection \<open>Runs of ticks\<close>

lemma run_ticks_fan:
  assumes "ring_inv s" and "\<not> autoFanEnabled s"
  shows "\<exists>s'. run_ticks inps s = Some s' \<and> fanOn s' = (fanOn s \<or> 0 < count_fires inps s)"
  using assms
proof (induction inps arbitrary: s)
  case Nil
  then show ?case by simp
next
  case (Cons inp inps)
  obtain s1 where s1: "updateSensorsAndLogic inp s = Some s1" "ring_inv s1"
     "autoFanEnabled s1 = autoFanEnabled s"
     "fanOn s1 = (if autoFanEnabled s then cf_ge (temp s1) (tempThreshold s)
                 else (schedule_due (rtc_now inp) s \<or> fanOn s))"
    using tick_effect[OF Cons.prems(1), of inp] by blast
  have na: "\<not> autoFanEnabled s1" using s1(3) Cons.prems(2) by simp
  obtain s' where s': "run_ticks inps s1 = Some s'" "fanOn s' = (fanOn s1 \<or> 0 < count_fires inps s1)"
    using Cons.IH[OF s1(2) na] by (elim exE conjE) (rule that; assumption)
  have cf: "count_fires (inp # inps) s =
      (if schedule_due (rtc_now inp) s then 1 else 0) + count_fires inps s1"
    using s1(1) by simp
  have f1: "fanOn s1 = (schedule_due (rtc_now inp) s \<or> fanOn s)"
    using s1(4) Cons.prems(2) by simp
  have r: "run_ticks (inp # inps) s = Some s'"
    using s1(1) s'(1) by simp
  have "fanOn s' = (fanOn s \<or> 0 < count_fires (inp # inps) s)"
    unfolding cf s'(2) f1 by auto
  then show ?case using r by simp
qed

lemma count_fires_disabled:
  assumes "ring_inv s" and "\<not> scheduleEnabled s"
  shows "count_fires inps s = 0"
  using assms
proof (induction inps arbitrary: s)
  case Nil
  then show ?case by simp
next
  case (Cons inp inps)
  obtain s1 where s1: "updateSensorsAndLogic inp s = Some s1" "ring_inv s1"
     "scheduleEnabled s1 = scheduleEnabled s"
    using tick_effect[OF Cons.prems(1), of inp] by blast
  have "count_fires inps s1 = 0" using Cons.IH[OF s1(2)] s1(3) Cons.prems(2) by simp
  then show ?case using s1(1) Cons.prems(2) by (simp add: schedule_due_def)
qed

subsection \<open>The CSV loop\<close>

lemma handleCsv_loop_eq:
  "ring_inv s \<Longrightarrow> 0 \<le> i \<Longrightarrow>
   handleCsv_loop s i csv =
     Some (csv @ concat (map (\<lambda>k. csv_row (history s ! nat (ring_idx s (int k))))
                          [nat i..<nat (historyCount s)]))"
proof (induction s i csv rule: handleCsv_loop.induct)
  case (1 s i csv)
  show ?case
  proof (cases "i < historyCount s")
    case True
    have b: "0 \<le> ring_idx s i \<and> ring_idx s i < int (length (history s))"
      using "1.prems" by (simp add: ring_idx_bounds)
    have u: "[nat i..<nat (historyCount s)] = nat i # [nat (i + 1)..<nat (historyCount s)]"
      using True "1.prems" by (simp add: upt_conv_Cons nat_add_distrib)
    have "handleCsv_loop s i csv = handleCsv_loop s (i + 1) (csv @ csv_row (history s ! nat (ring_idx s i)))"
      using True b by (subst handleCsv_loop.simps) simp
    also have "\<dots> = Some ((csv @ csv_row (history s ! nat (ring_idx s i))) @
        concat (map (\<lambda>k. csv_row (history s ! nat (ring_idx s (int k))))
                    [nat (i + 1)..<nat (historyCount s)]))"
      using "1.IH"[OF True refl] b "1.prems" by simp
    finally show ?thesis using u "1.prems" by simp
  next
    case False
    then show ?thesis by (subst handleCsv_loop.simps) simp
  qed
qed

lemma handleCsv_view:
  "ring_inv s \<Longrightarrow> handleCsv s = Some (csv_header @ concat (map csv_row (ring_view s)))"
  by (simp add: handleCsv_def handleCsv_loop_eq ring_view_def map_map comp_def)

subsection \<open>Configuration commands\<close>

lemma toInt_examples:
  "toInt ''90'' = 90" "toInt ''25'' = 25" "toInt ''6'' = 6" "toInt ''0'' = 0"
  by (simp_all add: toInt_def isspace_def isdigit_def)

lemma toInt_range: "- 2147483648 \<le> toInt x \<and> toInt x \<le> 2147483647"
  by (simp add: toInt_def Let_def)

lemma handleSet_schedule:
  assumes "server_arg req ''type'' = ''schedule''"
  shows "scheduleEnabled (handleSet tf req now s) = (server_arg req ''enable'' = ''true'')"
    "scheduleHour (handleSet tf req now s) = toInt (server_arg req ''hour'')"
    "scheduleMinute (handleSet tf req now s) = toInt (server_arg req ''minute'')"
    "autoFanEnabled (handleSet tf req now s) = autoFanEnabled s"
    "tempThreshold (handleSet tf req now s) = tempThreshold s"
  using assms by (simp_all add: handleSet_def Let_def)

lemma handleSet_auto:
  assumes "server_arg req ''type'' = ''auto''"
  shows "autoFanEnabled (handleSet tf req now s) = (server_arg req ''enable'' = ''true'')"
    "tempThreshold (handleSet tf req now s) = tf (server_arg req ''threshold'')"
    "scheduleEnabled (handleSet tf req now s) = scheduleEnabled s"
    "scheduleHour (handleSet tf req now s) = scheduleHour s"
    "scheduleMinute (handleSet tf req now s) = scheduleMinute s"
  using assms by (simp_all add: handleSet_def Let_def)

lemma handleSet_other:
  assumes "server_arg req ''type'' \<noteq> ''auto''" and "server_arg req ''type'' \<noteq> ''schedule''"
  shows "handleSet tf req now s = s"
  using assms by (simp add: handleSet_def Let_def)

subsection \<open>The schedule rule over a run of ticks\<close>

lemma count_fires_Cons:
  assumes "updateSensorsAndLogic inp s = Some s1"
  shows "count_fires (inp # inps) s =
     (if schedule_due (rtc_now inp) s then 1 else 0) + count_fires inps s1"
  using assms by simp

text \<open>
  Once \<open>lastMinute\<close> equals the scheduled minute, no later tick fires: the rule needs the
  clock's minute to equal \<open>scheduleMinute\<close> and to differ from \<open>lastMinute\<close>, and only
  a fire changes \<open>lastMinute\<close>.
\<close>

lemma no_fire_after_fire:
  assumes "ring_inv s" and "lastMinute s = scheduleMinute s"
  shows "count_fires inps s = 0"
  using assms
proof (induction inps arbitrary: s)
  case Nil
  then show ?case by simp
next
  case (Cons inp inps)
  have nd: "\<not> schedule_due (rtc_now inp) s"
    using Cons.prems(2) by (auto simp: schedule_due_def)
  obtain s1 where s1: "updateSensorsAndLogic inp s = Some s1" "ring_inv s1"
     "scheduleMinute s1 = scheduleMinute s"
     "lastMinute s1 = (if schedule_due (rtc_now inp) s then int (minute (rtc_now inp)) else lastMinute s)"
    using tick_effect[OF Cons.prems(1), of inp] by (elim exE conjE) (rule that; assumption)
  have "lastMinute s1 = scheduleMinute s1" using s1(3,4) nd Cons.prems(2) by simp
  then have "count_fires inps s1 = 0" using Cons.IH[OF s1(2)] by simp
  then show ?case using count_fires_Cons[OF s1(1)] nd by simp
qed

text \<open>Over any run of ticks the rule fires at most once.\<close>

lemma fires_at_most_once:
  assumes "ring_inv s"
  shows "count_fires inps s \<le> 1"
  using assms
proof (induction inps arbitrary: s)
  case Nil
  then show ?case by simp
next
  case (Cons inp inps)
  obtain s1 where s1: "updateSensorsAndLogic inp s = Some s1" "ring_inv s1"
     "scheduleMinute s1 = scheduleMinute s"
     "lastMinute s1 = (if schedule_due (rtc_now inp) s then int (minute (rtc_now inp)) else lastMinute s)"
    using tick_effect[OF Cons.prems, of inp] by (elim exE conjE) (rule that; assumption)
  show ?case
  proof (cases "schedule_due (rtc_now inp) s")
    case True
    then have "lastMinute s1 = scheduleMinute s1"
      using s1(3,4) by (simp add: schedule_due_def)
    then have "count_fires inps s1 = 0" using no_fire_after_fire[OF s1(2)] by simp
    then show ?thesis using count_fires_Cons[OF s1(1)] by simp
  next
    case False
    then show ?thesis using count_fires_Cons[OF s1(1)] Cons.IH[OF s1(2)] by simp
  qed
qed

text \<open>
  Within the scheduled minute the rule fires exactly once, on the first tick, provided
  \<open>lastMinute\<close> does not already hold that minute.
\<close>

lemma fires_once_in_scheduled_minute:
  assumes "ring_inv s" and "scheduleEnabled s" and "lastMinute s \<noteq> scheduleMinute s"
    and "int (hour (rtc_now inp)) = scheduleHour s" and "int (minute (rtc_now inp)) = scheduleMinute s"
  shows "count_fires (inp # inps) s = 1"
proof -
  have d: "schedule_due (rtc_now inp) s"
    using assms by (simp add: schedule_due_def)
  obtain s1 where s1: "updateSensorsAndLogic inp s = Some s1" "ring_inv s1"
     "scheduleMinute s1 = scheduleMinute s"
     "lastMinute s1 = (if schedule_due (rtc_now inp) s then int (minute (rtc_now inp)) else lastMinute s)"
    using tick_effect[OF assms(1), of inp] by (elim exE conjE) (rule that; assumption)
  have "lastMinute s1 = scheduleMinute s1" using s1(3,4) d assms(5) by simp
  then have "count_fires inps s1 = 0" using no_fire_after_fire[OF s1(2)] by simp
  then show ?thesis using count_fires_Cons[OF s1(1)] d by simp
qed

lemma schedule_on_fields:
  "ring_inv schedule_on" "scheduleEnabled schedule_on" "scheduleHour schedule_on = 6"
  "scheduleMinute schedule_on = 0" "lastMinute schedule_on = - 1"
proof -
  have t: "server_arg morning_schedule_request ''type'' = ''schedule''"
    by (simp add: server_arg_def morning_schedule_request_def)
  have a: "server_arg morning_schedule_request ''enable'' = ''true''"
    "server_arg morning_schedule_request ''hour'' = ''6''"
    "server_arg morning_schedule_request ''minute'' = ''0''"
    by (simp_all add: server_arg_def morning_schedule_request_def)
  show "ring_inv schedule_on"
    using ring_inv_init by (simp add: schedule_on_def ring_inv_def handleSet_frame)
  show "scheduleEnabled schedule_on" "scheduleHour schedule_on = 6" "scheduleMinute schedule_on = 0"
    by (simp_all add: schedule_on_def handleSet_schedule[OF t] a toInt_examples)
  show "lastMinute schedule_on = - 1"
    by (simp add: schedule_on_def handleSet_frame init_state_def)
qed

lemma minute_of_ticks_fires_once: "count_fires minute_of_ticks schedule_on = 1"
proof -
  let ?t = "tick_at (Fin 30) (clock 1 6 0 0)"
  let ?rest = "map (\<lambda>n. tick_at (Fin 30) (clock 1 6 0 n)) [Suc 0..<60]"
  have e: "minute_of_ticks = ?t # ?rest"
    unfolding minute_of_ticks_def by (simp only: upt_conv_Cons[of 0 60] list.map simp_thms zero_less_numeral if_True)
  have h: "int (hour (rtc_now ?t)) = scheduleHour schedule_on"
    and m: "int (minute (rtc_now ?t)) = scheduleMinute schedule_on"
    and l: "lastMinute schedule_on \<noteq> scheduleMinute schedule_on"
    by (simp_all add: schedule_on_fields tick_at_def clock_def)
  show ?thesis
    unfolding e by (rule fires_once_in_scheduled_minute[OF schedule_on_fields(1,2) l h m])
qed

subsection \<open>The CSV text\<close>

lemma plain_append [simp]: "plain (a @ b) = (plain a \<and> plain b)"
  by (auto simp: plain_def)

lemma plain_Nil [simp]: "plain []"
  by (simp add: plain_def)
















lemma split_header: "split_on (CHR '','') ''Timestamp,Temperature,Pressure,Heap,RSSI'' = csv_header_fields"
  by (simp add: csv_header_fields_def)


lemma append_to_init: "history_append e init_state = Some (one_sample e)"
proof -
  have i: "historyIndex init_state = 0" and c: "historyCount init_state = 0"
    by (simp_all add: init_state_def)
  show ?thesis
    unfolding history_append_Some[OF ring_inv_init] one_sample_def i c by simp
qed

lemma ring_inv_one_sample: "ring_inv (one_sample e)"
  using history_append_inv[OF ring_inv_init append_to_init] .










subsection \<open>The tick and the ring\<close>

text \<open>
  The tick appends its sample when a history interval has passed, and leaves the ring as
  it is otherwise.
\<close>

lemma tick_history:
  assumes "ring_inv s"
  shows "\<exists>s'. updateSensorsAndLogic inp s = Some s' \<and>
     handleHistory s' =
       (if millis inp - lastHistory s \<ge> HISTORY_INTERVAL
        then Some (last_n 100 (ring_view s @
               [\<lparr>timestamp = unixtime inp, h_temp = temp s', h_press = press s',
                 h_heap = getFreeHeap inp, h_rssi = wifiRSSI inp\<rparr>]))
        else Some (ring_view s))"
proof -
  let ?m = "updateRelays (auto_fan (scheduling inp (read_sensors inp s)))"
  have im: "ring_inv ?m" using assms by (simp add: ring_inv_cong[of ?m s])
  have vm: "ring_view ?m = ring_view s"
    by (simp add: ring_view_def ring_idx_def)
  have lm: "lastHistory ?m = lastHistory s"
    by (simp add: updateRelays_def auto_fan_def scheduling_def addLog_def read_sensors_def Let_def)
  have hm: "heap ?m = getFreeHeap inp" "rssi ?m = wifiRSSI inp"
    by (simp_all add: updateRelays_def auto_fan_def scheduling_def addLog_def read_sensors_def Let_def)
  show ?thesis
  proof (cases "millis inp - lastHistory s \<ge> HISTORY_INTERVAL")
    case True
    let ?e = "\<lparr>timestamp = unixtime inp, h_temp = temp ?m, h_press = press ?m,
               h_heap = heap ?m, h_rssi = rssi ?m\<rparr>"
    obtain s1 where s1: "history_append ?e ?m = Some s1"
      using im by (simp add: history_append_Some)
    have i1: "ring_inv s1" using history_append_inv[OF im s1] .
    have v1: "ring_view s1 = last_n 100 (ring_view s @ [?e])"
      using ring_view_append_last_n[OF im s1] vm by simp
    have t1: "temp s1 = temp ?m" "press s1 = press ?m"
      using history_append_frame(10,11)[OF s1] by simp_all
    let ?s' = "s1\<lparr>lastHistory := millis inp\<rparr>"
    have r: "updateSensorsAndLogic inp s = Some ?s'"
      using True s1 lm by (simp add: updateSensorsAndLogic_def add_to_history_def Let_def)
    have i': "ring_inv ?s'" using i1 by (simp add: ring_inv_def)
    have v': "ring_view ?s' = ring_view s1" by (simp add: ring_view_def ring_idx_def)
    have "handleHistory ?s' = Some (last_n 100 (ring_view s @
               [\<lparr>timestamp = unixtime inp, h_temp = temp ?s', h_press = press ?s',
                 h_heap = getFreeHeap inp, h_rssi = wifiRSSI inp\<rparr>]))"
      using handleHistory_view[OF i'] v' v1 t1 hm by simp
    then show ?thesis using r True by simp
  next
    case False
    have r: "updateSensorsAndLogic inp s = Some ?m"
      using False lm by (simp add: updateSensorsAndLogic_def add_to_history_def Let_def)
    show ?thesis using r False handleHistory_view[OF im] vm by simp
  qed
qed

section \<open>The claims\<close>

subsection \<open>The ring store\<close>

text \<open>
  C1. After any sequence of appends the history read returns the most recently written
  samples, oldest first: the last \<open>HISTORY_SIZE\<close> of what was stored before followed by
  the appended samples. Its length is the number of samples, capped at the capacity, and
  after capacity + 1 appends to an empty store the first sample is gone.
\<close>

theorem ring_snapshot_last_appends:
  assumes "ring_inv s" and "handleHistory s = Some xs"
  shows "\<exists>s' snap. history_appends es s = Some s' \<and> handleHistory s' = Some snap \<and>
           snap = last_n (nat HISTORY_SIZE) (xs @ es) \<and>
           length snap = min (length xs + length es) (nat HISTORY_SIZE) \<and>
           (xs = [] \<and> length es = nat HISTORY_SIZE + 1 \<longrightarrow> snap = tl es)"
proof -
  have xs: "xs = ring_view s" using assms by (simp add: handleHistory_view)
  obtain s' where s': "history_appends es s = Some s'" "ring_inv s'"
      "ring_view s' = last_n 100 (ring_view s @ es)"
    using history_appends_view[OF assms(1), of es] by blast
  have snap: "handleHistory s' = Some (last_n 100 (xs @ es))"
    using s'(2,3) xs by (simp add: handleHistory_view)
  have len: "length (last_n 100 (xs @ es)) = min (length xs + length es) 100"
    by (simp add: last_n_def)
  have wrap: "xs = [] \<and> length es = 101 \<longrightarrow> last_n 100 (xs @ es) = tl es"
    by (cases es) (auto simp: last_n_def)
  show ?thesis using s'(1) snap len wrap by (simp add: HISTORY_SIZE_def)
qed

theorem ring_snapshot_last_appends_witness:
  "ring_inv init_state \<and> handleHistory init_state = Some [] \<and>
   (\<exists>s' snap. history_appends (map sample [1..<102]) init_state = Some s' \<and>
       handleHistory s' = Some snap \<and> length snap = 100 \<and>
       snap = map sample [2..<102])"
proof -
  have l: "length (map sample [1..<102]) = nat HISTORY_SIZE + 1"
    by (simp add: HISTORY_SIZE_def)
  have "tl (map sample [1..<102]) = map sample [Suc 1..<102]"
    by (simp only: map_tl[symmetric] tl_upt)
  then have t: "tl (map sample [1..<102]) = map sample [2..<102]"
    by (simp only: Suc_1)
  obtain s' snap where r: "history_appends (map sample [1..<102]) init_state = Some s'"
      "handleHistory s' = Some snap"
      "length snap = min (length ([] :: HistoryEntry list) + length (map sample [1..<102])) (nat HISTORY_SIZE)"
      "[] = ([] :: HistoryEntry list) \<and> length (map sample [1..<102]) = nat HISTORY_SIZE + 1 \<longrightarrow>
         snap = tl (map sample [1..<102])"
    using ring_snapshot_last_appends[OF ring_inv_init handleHistory_init, of "map sample [1..<102]"]
    by blast
  have "snap = map sample [2..<102]" using r(4) l t by (simp only: simp_thms)
  moreover have "length snap = 100" using r(3) by (simp add: HISTORY_SIZE_def)
  ultimately show ?thesis
    using r(1,2) ring_inv_init handleHistory_init by blast
qed

subsection \<open>The automation rules\<close>

text \<open>
  C4. On a tick with auto mode on, the fan ends up on exactly when the current
  temperature (the reading of this tick, or the stored one when the reading is invalid)
  is at or above the threshold, whatever the fan state, the schedule and the clock were.
\<close>

theorem auto_mode_decides_fan:
  assumes "ring_inv s" and "autoFanEnabled s"
  shows "\<exists>s'. updateSensorsAndLogic inp s = Some s' \<and>
           fanOn s' = cf_ge (temp s') (tempThreshold s') \<and>
           tempThreshold s' = tempThreshold s \<and>
           temp s' = (if isnan (readTemperature inp) then temp s else readTemperature inp)"
  using tick_effect[OF assms(1), of inp] assms(2) by auto

theorem auto_mode_decides_fan_witness:
  "ring_inv (init_state\<lparr>autoFanEnabled := True, fanOn := True\<rparr>) \<and>
   autoFanEnabled (init_state\<lparr>autoFanEnabled := True, fanOn := True\<rparr>) \<and>
   (\<exists>s'. updateSensorsAndLogic (tick_at (Fin (249 / 10)) (clock 1 6 0 0))
            (init_state\<lparr>autoFanEnabled := True, fanOn := True\<rparr>) = Some s' \<and> \<not> fanOn s') \<and>
   (\<exists>s'. updateSensorsAndLogic (tick_at (Fin 25) (clock 1 6 0 0))
            (init_state\<lparr>autoFanEnabled := True, fanOn := False\<rparr>) = Some s' \<and> fanOn s')"
proof -
  have i1: "ring_inv (init_state\<lparr>autoFanEnabled := True, fanOn := True\<rparr>)"
    and i2: "ring_inv (init_state\<lparr>autoFanEnabled := True, fanOn := False\<rparr>)"
    using ring_inv_init by (simp_all add: ring_inv_def)
  have a1: "autoFanEnabled (init_state\<lparr>autoFanEnabled := True, fanOn := True\<rparr>)"
    and a2: "autoFanEnabled (init_state\<lparr>autoFanEnabled := True, fanOn := False\<rparr>)"
    by simp_all
  show ?thesis
    using auto_mode_decides_fan[OF i1 a1, of "tick_at (Fin (249 / 10)) (clock 1 6 0 0)"]
      auto_mode_decides_fan[OF i2 a2, of "tick_at (Fin 25) (clock 1 6 0 0)"] i1
    by (auto simp: tick_at_def init_state_def)
qed

text \<open>
  C5. A reading that is not a number leaves the stored temperature or pressure at its
  previous value. Readings that are valid before a tick are valid after it, in the two
  current values and in every slot of the history, and with auto mode on the fan
  decision is taken on the stored temperature.
\<close>

theorem invalid_reading_keeps_last_good:
  assumes "ring_inv s"
  shows "\<exists>s'. updateSensorsAndLogic inp s = Some s' \<and>
           (isnan (readTemperature inp) \<longrightarrow> temp s' = temp s) \<and>
           (isnan (readPressure inp) \<longrightarrow> press s' = press s) \<and>
           (valid_readings s \<longrightarrow> valid_readings s') \<and>
           (autoFanEnabled s \<longrightarrow> fanOn s' = cf_ge (temp s') (tempThreshold s))"
proof -
  obtain s' where s': "updateSensorsAndLogic inp s = Some s'"
     "temp s' = (if isnan (readTemperature inp) then temp s else readTemperature inp)"
     "press s' = (if isnan (readPressure inp) then press s else cf_div100 (readPressure inp))"
     "fanOn s' = (if autoFanEnabled s then cf_ge (temp s') (tempThreshold s)
                 else (schedule_due (rtc_now inp) s \<or> fanOn s))"
    using tick_effect[OF assms, of inp] by blast
  show ?thesis
    using s' tick_valid_readings[OF s'(1)] by auto
qed

theorem invalid_reading_keeps_last_good_witness:
  "ring_inv auto_warm_state \<and>
   (\<exists>s'. updateSensorsAndLogic invalid_tick auto_warm_state = Some s' \<and>
         temp s' = Fin (47 / 2) \<and> press s' = Fin 0 \<and> valid_readings s' \<and> \<not> fanOn s')"
proof -
  have i: "ring_inv auto_warm_state"
    using ring_inv_init by (simp add: ring_inv_def auto_warm_state_def)
  have v: "valid_readings auto_warm_state"
    using valid_readings_init by (simp add: valid_readings_def auto_warm_state_def)
  have f: "temp auto_warm_state = Fin (47 / 2)" "press auto_warm_state = Fin 0"
    "autoFanEnabled auto_warm_state" "tempThreshold auto_warm_state = Fin 25"
    by (simp_all add: auto_warm_state_def init_state_def)
  have n: "isnan (readTemperature invalid_tick)" "isnan (readPressure invalid_tick)"
    by (simp_all add: invalid_tick_def tick_at_def)
  obtain s' where s': "updateSensorsAndLogic invalid_tick auto_warm_state = Some s'"
      "isnan (readTemperature invalid_tick) \<longrightarrow> temp s' = temp auto_warm_state"
      "isnan (readPressure invalid_tick) \<longrightarrow> press s' = press auto_warm_state"
      "valid_readings auto_warm_state \<longrightarrow> valid_readings s'"
      "autoFanEnabled auto_warm_state \<longrightarrow>
         fanOn s' = cf_ge (temp s') (tempThreshold auto_warm_state)"
    using invalid_reading_keeps_last_good[OF i, of invalid_tick]
    by (elim exE conjE) (rule that; assumption)
  have "temp s' = Fin (47 / 2)" "press s' = Fin 0" "valid_readings s'"
    using s'(2,3,4) n v f by simp_all
  moreover from this have "\<not> fanOn s'" using s'(5) f by simp
  ultimately show ?thesis using i s'(1) by (intro conjI exI)
qed

text \<open>
  C7. With auto mode off, a tick on which the schedule rule does not fire leaves the fan
  as it is; so does any run of ticks without a fire; and a fan that is on stays on over
  any run of ticks.
\<close>

theorem manual_fan_persists:
  assumes "ring_inv s" and "\<not> autoFanEnabled s"
  shows "(\<not> schedule_due (rtc_now inp) s \<longrightarrow>
            (\<exists>s'. updateSensorsAndLogic inp s = Some s' \<and> fanOn s' = fanOn s)) \<and>
         (count_fires inps s = 0 \<longrightarrow> (\<exists>s'. run_ticks inps s = Some s' \<and> fanOn s' = fanOn s)) \<and>
         (fanOn s \<longrightarrow> (\<exists>s'. run_ticks inps s = Some s' \<and> fanOn s'))"
proof -
  obtain s1 where s1: "updateSensorsAndLogic inp s = Some s1"
     "fanOn s1 = (if autoFanEnabled s then cf_ge (temp s1) (tempThreshold s)
                 else (schedule_due (rtc_now inp) s \<or> fanOn s))"
    using tick_effect[OF assms(1), of inp] by blast
  have one: "\<not> schedule_due (rtc_now inp) s \<longrightarrow>
      (\<exists>s'. updateSensorsAndLogic inp s = Some s' \<and> fanOn s' = fanOn s)"
    using s1 assms(2) by simp
  obtain s2 where s2: "run_ticks inps s = Some s2" "fanOn s2 = (fanOn s \<or> 0 < count_fires inps s)"
    using run_ticks_fan[OF assms, of inps] by (elim exE conjE) (rule that; assumption)
  have many: "count_fires inps s = 0 \<longrightarrow> (\<exists>s'. run_ticks inps s = Some s' \<and> fanOn s' = fanOn s)"
    using s2 by simp
  have on: "fanOn s \<longrightarrow> (\<exists>s'. run_ticks inps s = Some s' \<and> fanOn s')"
    using s2 by simp
  show ?thesis using one many on by (simp only: simp_thms)
qed

theorem manual_fan_persists_witness:
  "ring_inv manual_fan_on \<and> \<not> autoFanEnabled manual_fan_on \<and>
   (\<exists>s'. updateSensorsAndLogic (tick_at (Fin 30) (clock 1 6 0 1)) manual_fan_on = Some s' \<and> fanOn s') \<and>
   (\<exists>s'. run_ticks minute_of_ticks manual_fan_on = Some s' \<and> fanOn s')"
proof -
  have i: "ring_inv manual_fan_on"
    using ring_inv_init by (simp add: ring_inv_def handleControl_frame manual_fan_on_def)
  have a: "\<not> autoFanEnabled manual_fan_on"
    by (simp add: handleControl_frame init_state_def manual_fan_on_def)
  have e: "\<not> scheduleEnabled manual_fan_on"
    by (simp add: handleControl_frame init_state_def manual_fan_on_def)
  have f: "fanOn manual_fan_on"
    by (simp add: handleControl_devices server_arg_def manual_fan_on_def fan_on_request_def)
  have d: "\<not> schedule_due (rtc_now (tick_at (Fin 30) (clock 1 6 0 1))) manual_fan_on"
    using e by (simp add: schedule_due_def)
  have c: "count_fires minute_of_ticks manual_fan_on = 0"
    using i e by (rule count_fires_disabled)
  show ?thesis
    using manual_fan_persists[OF i a, of "tick_at (Fin 30) (clock 1 6 0 1)" minute_of_ticks] i a f d c
    by (simp only: simp_thms)
qed

text \<open>
  C8. A tick, and any run of ticks, leaves the light and the lamp as they are; so does a
  configuration command. A manual command changes the light only when it names the
  light, and the lamp only when it names the lamp.
\<close>

theorem automation_keeps_light_and_lamp:
  assumes "ring_inv s"
  shows "(\<exists>s'. updateSensorsAndLogic inp s = Some s' \<and> lightOn s' = lightOn s \<and> lampOn s' = lampOn s) \<and>
         (\<exists>s'. run_ticks inps s = Some s' \<and> lightOn s' = lightOn s \<and> lampOn s' = lampOn s) \<and>
         lightOn (handleSet tf sreq now s) = lightOn s \<and>
         lampOn (handleSet tf sreq now s) = lampOn s \<and>
         (server_arg creq ''device'' \<noteq> ''light'' \<longrightarrow> lightOn (handleControl creq now s) = lightOn s) \<and>
         (server_arg creq ''device'' \<noteq> ''lamp'' \<longrightarrow> lampOn (handleControl creq now s) = lampOn s)"
  using tick_effect[OF assms, of inp] run_ticks_effect[OF assms, of inps]
  by (auto simp: handleSet_frame handleControl_devices)

theorem automation_keeps_light_and_lamp_witness:
  "ring_inv light_on_state \<and>
   (\<exists>s'. updateSensorsAndLogic (tick_at (Fin 30) (clock 1 6 0 0)) light_on_state = Some s' \<and>
         lightOn s' \<and> \<not> lampOn s') \<and>
   (\<exists>s'. run_ticks minute_of_ticks light_on_state = Some s' \<and> lightOn s' \<and> \<not> lampOn s') \<and>
   lightOn (handleSet (\<lambda>x. Fin 20) auto_request (clock 1 6 0 0) light_on_state) \<and>
   \<not> lampOn (handleSet (\<lambda>x. Fin 20) auto_request (clock 1 6 0 0) light_on_state) \<and>
   lightOn (handleControl fan_on_request (clock 1 6 0 0) light_on_state) \<and>
   \<not> lampOn (handleControl fan_on_request (clock 1 6 0 0) light_on_state)"
proof -
  have i: "ring_inv light_on_state"
    using ring_inv_init by (simp add: ring_inv_def light_on_state_def)
  have l: "lightOn light_on_state" "\<not> lampOn light_on_state"
    by (simp_all add: light_on_state_def init_state_def)
  have d: "server_arg fan_on_request ''device'' \<noteq> ''light''"
    "server_arg fan_on_request ''device'' \<noteq> ''lamp''"
    by (simp_all add: server_arg_def fan_on_request_def)
  show ?thesis
    using automation_keeps_light_and_lamp[OF i, of "tick_at (Fin 30) (clock 1 6 0 0)"
        minute_of_ticks "\<lambda>x. Fin 20" auto_request "clock 1 6 0 0" fan_on_request] i d l
    by (simp only: simp_thms)
qed

subsection \<open>Bounds of the ring variables\<close>

text \<open>
  C9. The ring variables start within their bounds (the array has 100 slots, the index is
  in 0..99 and the count in 0..100) and every operation keeps them there: the append, the
  tick and the two command handlers. Within the bounds the append, the history read and
  the CSV export never index the array outside it, and every index that the two read
  loops compute lies in 0..99.
\<close>

theorem ring_bounds_invariant:
  "ring_inv init_state \<and>
   (ring_inv s \<longrightarrow>
      (\<exists>s'. history_append e s = Some s' \<and> ring_inv s') \<and>
      (\<exists>s'. updateSensorsAndLogic inp s = Some s' \<and> ring_inv s') \<and>
      ring_inv (handleControl creq now s) \<and>
      ring_inv (handleSet tf sreq now s) \<and>
      (\<exists>snap. handleHistory s = Some snap) \<and>
      (\<exists>csv. handleCsv s = Some csv) \<and>
      (\<forall>i. 0 \<le> i \<and> i < historyCount s \<longrightarrow> 0 \<le> ring_idx s i \<and> ring_idx s i < HISTORY_SIZE))"
proof (intro conjI impI)
  show "ring_inv init_state" by (rule ring_inv_init)
next
  assume inv: "ring_inv s"
  obtain s1 where s1: "history_append e s = Some s1"
    using inv by (simp add: history_append_Some)
  then show "\<exists>s'. history_append e s = Some s' \<and> ring_inv s'"
    using history_append_inv[OF inv s1] by simp
  show "\<exists>s'. updateSensorsAndLogic inp s = Some s' \<and> ring_inv s'"
    using tick_effect[OF inv, of inp] by (elim exE conjE) (intro exI conjI; assumption)
  show "ring_inv (handleControl creq now s)"
    using inv by (simp add: ring_inv_def handleControl_frame)
  show "ring_inv (handleSet tf sreq now s)"
    using inv by (simp add: ring_inv_def handleSet_frame)
  show "\<exists>snap. handleHistory s = Some snap"
    using inv by (simp add: handleHistory_view)
  show "\<exists>csv. handleCsv s = Some csv"
    using inv by (simp add: handleCsv_view)
  show "\<forall>i. 0 \<le> i \<and> i < historyCount s \<longrightarrow> 0 \<le> ring_idx s i \<and> ring_idx s i < HISTORY_SIZE"
    using inv ring_idx_bounds[OF inv] by (simp add: ring_inv_def)
qed

theorem ring_bounds_invariant_witness:
  "ring_inv init_state \<and>
   (\<exists>s'. history_append (sample 1) init_state = Some s' \<and> ring_inv s') \<and>
   (\<exists>s'. updateSensorsAndLogic (tick_at (Fin 30) (clock 1 6 0 0)) init_state = Some s' \<and> ring_inv s') \<and>
   ring_inv (handleControl fan_on_request (clock 1 6 0 0) init_state) \<and>
   ring_inv (handleSet (\<lambda>x. Fin 20) auto_request (clock 1 6 0 0) init_state) \<and>
   (\<exists>snap. handleHistory init_state = Some snap) \<and>
   (\<exists>csv. handleCsv init_state = Some csv) \<and>
   0 \<le> ring_idx (one_sample warm_a) 0 \<and> ring_idx (one_sample warm_a) 0 < HISTORY_SIZE"
proof -
  have a: "ring_inv init_state \<longrightarrow>
      (\<exists>s'. history_append (sample 1) init_state = Some s' \<and> ring_inv s') \<and>
      (\<exists>s'. updateSensorsAndLogic (tick_at (Fin 30) (clock 1 6 0 0)) init_state = Some s' \<and> ring_inv s') \<and>
      ring_inv (handleControl fan_on_request (clock 1 6 0 0) init_state) \<and>
      ring_inv (handleSet (\<lambda>x. Fin 20) auto_request (clock 1 6 0 0) init_state) \<and>
      (\<exists>snap. handleHistory init_state = Some snap) \<and>
      (\<exists>csv. handleCsv init_state = Some csv) \<and>
      (\<forall>i. 0 \<le> i \<and> i < historyCount init_state \<longrightarrow>
           0 \<le> ring_idx init_state i \<and> ring_idx init_state i < HISTORY_SIZE)"
    using ring_bounds_invariant[of init_state "sample 1" "tick_at (Fin 30) (clock 1 6 0 0)"
        fan_on_request "clock 1 6 0 0" "\<lambda>x. Fin 20" auto_request]
    by (rule conjunct2)
  have b: "\<forall>i. 0 \<le> i \<and> i < historyCount (one_sample warm_a) \<longrightarrow>
      0 \<le> ring_idx (one_sample warm_a) i \<and> ring_idx (one_sample warm_a) i < HISTORY_SIZE"
    using ring_bounds_invariant[of "one_sample warm_a" "sample 1" "tick_at (Fin 30) (clock 1 6 0 0)"
        fan_on_request "clock 1 6 0 0" "\<lambda>x. Fin 20" auto_request]
    by (simp only: ring_inv_one_sample[of warm_a] simp_thms) (elim conjE, assumption)
  have c: "(0::int) \<le> 0 \<and> 0 < historyCount (one_sample warm_a)"
    by (simp add: one_sample_def)
  have "0 \<le> ring_idx (one_sample warm_a) 0 \<and> ring_idx (one_sample warm_a) 0 < HISTORY_SIZE"
    using b c by (elim allE[of _ 0]) (erule mp)
  then show ?thesis using a ring_inv_init by (simp only: simp_thms)
qed

subsection \<open>Manual commands\<close>

text \<open>
  C10. A manual command naming the fan, the light or the lamp sets that device on exactly
  when the state argument is the string \<open>on\<close>, and off for any other string; the other
  two devices keep their state. A command naming any other device changes none of the
  three.
\<close>

theorem manual_command_sets_device:
  "(server_arg req ''device'' = ''fan'' \<longrightarrow>
      fanOn (handleControl req now s) = (server_arg req ''state'' = ''on'') \<and>
      lightOn (handleControl req now s) = lightOn s \<and> lampOn (handleControl req now s) = lampOn s) \<and>
   (server_arg req ''device'' = ''light'' \<longrightarrow>
      lightOn (handleControl req now s) = (server_arg req ''state'' = ''on'') \<and>
      fanOn (handleControl req now s) = fanOn s \<and> lampOn (handleControl req now s) = lampOn s) \<and>
   (server_arg req ''device'' = ''lamp'' \<longrightarrow>
      lampOn (handleControl req now s) = (server_arg req ''state'' = ''on'') \<and>
      fanOn (handleControl req now s) = fanOn s \<and> lightOn (handleControl req now s) = lightOn s) \<and>
   (server_arg req ''device'' \<noteq> ''fan'' \<and> server_arg req ''device'' \<noteq> ''light'' \<and>
    server_arg req ''device'' \<noteq> ''lamp'' \<longrightarrow>
      fanOn (handleControl req now s) = fanOn s \<and> lightOn (handleControl req now s) = lightOn s \<and>
      lampOn (handleControl req now s) = lampOn s)"
  by (simp add: handleControl_devices)

theorem manual_command_sets_device_witness:
  "fanOn (handleControl fan_on_request (clock 1 6 0 0) init_state) \<and>
   \<not> fanOn (handleControl fan_upper_request (clock 1 6 0 0) manual_fan_on) \<and>
   lampOn (handleControl lamp_on_request (clock 1 6 0 0) init_state) \<and>
   \<not> lightOn (handleControl lamp_on_request (clock 1 6 0 0) init_state) \<and>
   fanOn (handleControl heater_request (clock 1 6 0 0) manual_fan_on) \<and>
   \<not> lightOn (handleControl heater_request (clock 1 6 0 0) manual_fan_on) \<and>
   \<not> lampOn (handleControl heater_request (clock 1 6 0 0) manual_fan_on)"
proof -
  have f: "fanOn manual_fan_on" "\<not> lightOn manual_fan_on" "\<not> lampOn manual_fan_on"
    by (simp_all add: handleControl_devices server_arg_def manual_fan_on_def fan_on_request_def
        init_state_def)
  have i: "\<not> lightOn init_state" by (simp add: init_state_def)
  have a: "server_arg fan_on_request ''device'' = ''fan''"
    "server_arg fan_on_request ''state'' = ''on''"
    "server_arg fan_upper_request ''device'' = ''fan''"
    "server_arg fan_upper_request ''state'' \<noteq> ''on''"
    "server_arg lamp_on_request ''device'' = ''lamp''"
    "server_arg lamp_on_request ''state'' = ''on''"
    "server_arg heater_request ''device'' \<noteq> ''fan''"
    "server_arg heater_request ''device'' \<noteq> ''light''"
    "server_arg heater_request ''device'' \<noteq> ''lamp''"
    by (simp_all add: server_arg_def fan_on_request_def fan_upper_request_def
        lamp_on_request_def heater_request_def)
  show ?thesis
    using manual_command_sets_device[of fan_on_request "clock 1 6 0 0" init_state]
      manual_command_sets_device[of fan_upper_request "clock 1 6 0 0" manual_fan_on]
      manual_command_sets_device[of lamp_on_request "clock 1 6 0 0" init_state]
      manual_command_sets_device[of heater_request "clock 1 6 0 0" manual_fan_on]
      f i a
    by (simp only: simp_thms)
qed

subsection \<open>Configuration commands\<close>

text \<open>
  C2, as the claim states it, fails: \<open>handleSet\<close> has no range check. A schedule
  command with hour 25 and minute 90 stores 25 and 90 and replaces the previous
  schedule.
\<close>

theorem schedule_minute_stored_unchecked:
  "scheduleMinute (handleSet (\<lambda>x. Fin 20) bad_schedule_request (clock 1 6 0 0) init_state) = 90 \<and>
   scheduleHour (handleSet (\<lambda>x. Fin 20) bad_schedule_request (clock 1 6 0 0) init_state) = 25 \<and>
   scheduleEnabled (handleSet (\<lambda>x. Fin 20) bad_schedule_request (clock 1 6 0 0) init_state) \<and>
   scheduleMinute init_state = 0 \<and> scheduleHour init_state = 0 \<and> \<not> scheduleEnabled init_state"
proof -
  have t: "server_arg bad_schedule_request ''type'' = ''schedule''"
    by (simp add: server_arg_def bad_schedule_request_def)
  have a: "server_arg bad_schedule_request ''enable'' = ''true''"
    "server_arg bad_schedule_request ''hour'' = ''25''"
    "server_arg bad_schedule_request ''minute'' = ''90''"
    by (simp_all add: server_arg_def bad_schedule_request_def)
  show ?thesis
    by (simp add: handleSet_schedule[OF t] a toInt_examples) (simp add: init_state_def)
qed

text \<open>
  C2, amended. A schedule command stores exactly what \<open>toInt\<close> reads from the hour
  and minute arguments and whether the enable argument is the string \<open>true\<close>; the
  auto-mode fields keep their values. When a stored hour or minute is outside 0..23 or
  0..59, the schedule rule is not due at any clock time with an hour below 24 and a minute
  below 60.
\<close>

theorem schedule_command_stores_parsed:
  assumes "server_arg req ''type'' = ''schedule''"
  shows "scheduleEnabled (handleSet tf req now s) = (server_arg req ''enable'' = ''true'') \<and>
         scheduleHour (handleSet tf req now s) = toInt (server_arg req ''hour'') \<and>
         scheduleMinute (handleSet tf req now s) = toInt (server_arg req ''minute'') \<and>
         autoFanEnabled (handleSet tf req now s) = autoFanEnabled s \<and>
         tempThreshold (handleSet tf req now s) = tempThreshold s \<and>
         (hour clk < 24 \<and> minute clk < 60 \<and>
          \<not> (0 \<le> toInt (server_arg req ''hour'') \<and> toInt (server_arg req ''hour'') < 24 \<and>
             0 \<le> toInt (server_arg req ''minute'') \<and> toInt (server_arg req ''minute'') < 60)
          \<longrightarrow> \<not> schedule_due clk (handleSet tf req now s))"
  using handleSet_schedule[OF assms, of tf now s]
  by (auto simp: schedule_due_def)

theorem schedule_command_stores_parsed_witness:
  "server_arg bad_schedule_request ''type'' = ''schedule'' \<and>
   scheduleEnabled (handleSet (\<lambda>x. Fin 20) bad_schedule_request (clock 1 6 0 0) init_state) \<and>
   scheduleHour (handleSet (\<lambda>x. Fin 20) bad_schedule_request (clock 1 6 0 0) init_state) = 25 \<and>
   scheduleMinute (handleSet (\<lambda>x. Fin 20) bad_schedule_request (clock 1 6 0 0) init_state) = 90 \<and>
   \<not> autoFanEnabled (handleSet (\<lambda>x. Fin 20) bad_schedule_request (clock 1 6 0 0) init_state) \<and>
   tempThreshold (handleSet (\<lambda>x. Fin 20) bad_schedule_request (clock 1 6 0 0) init_state) = Fin 25 \<and>
   \<not> schedule_due (clock 2 1 30 0)
       (handleSet (\<lambda>x. Fin 20) bad_schedule_request (clock 1 6 0 0) init_state)"
proof -
  have t: "server_arg bad_schedule_request ''type'' = ''schedule''"
    by (simp add: server_arg_def bad_schedule_request_def)
  have a: "server_arg bad_schedule_request ''enable'' = ''true''"
    "server_arg bad_schedule_request ''hour'' = ''25''"
    "server_arg bad_schedule_request ''minute'' = ''90''"
    by (simp_all add: server_arg_def bad_schedule_request_def)
  have c: "hour (clock 2 1 30 0) < 24" "minute (clock 2 1 30 0) < 60"
    by (simp_all add: clock_def)
  have i: "\<not> autoFanEnabled init_state" "tempThreshold init_state = Fin 25"
    by (simp_all add: init_state_def)
  show ?thesis
    using schedule_command_stores_parsed[OF t, of "\<lambda>x. Fin 20" "clock 1 6 0 0" init_state
        "clock 2 1 30 0"] t c i
    by (simp add: a toInt_examples)
qed

subsection \<open>The schedule rule\<close>

text \<open>
  C3, evaluated on a run with two scheduled minutes. The schedule is set to 06:00 on a
  freshly started controller; the clock reads 06:00 on the first day, 06:01, and 06:00 on
  the second day. The rule fires once, on the first tick: \<open>lastMinute\<close> still holds 0
  on the second morning, so the test \<open>lastMinute != currentMinute\<close> fails there.
\<close>

theorem schedule_skips_second_morning:
  "scheduleEnabled schedule_on \<and> scheduleHour schedule_on = 6 \<and> scheduleMinute schedule_on = 0 \<and>
   count_fires two_mornings schedule_on = 1"
proof -
  let ?t1 = "tick_at (Fin 20) (clock 1 6 0 0)"
  have "count_fires (?t1 # [tick_at (Fin 20) (clock 1 6 1 0), tick_at (Fin 20) (clock 2 6 0 0)])
          schedule_on = 1"
    by (rule fires_once_in_scheduled_minute) (simp_all add: schedule_on_fields tick_at_def clock_def)
  then show ?thesis by (simp add: two_mornings_def schedule_on_fields)
qed

subsection \<open>The CSV export\<close>




end
